theory Spec2Isabelle
  imports Main "HOL-Library.Sublist"
begin

section \<open>JavaScript string primitives used by the sources\<close>

text \<open>
  A JavaScript string is modelled as a \<^typ>\<open>string\<close>: each \<^typ>\<open>char\<close> stands for one
  code unit below 256. The white space that \<^verbatim>\<open>String.prototype.trim\<close> removes is, in that
  range, TAB, LF, VT, FF, CR, SPACE and NBSP.
\<close>

definition isWhiteSpace :: "char \<Rightarrow> bool" where
  "isWhiteSpace c = (of_char c \<in> {9, 10, 11, 12, 13, 32, 160 :: nat})"

definition trim :: "string \<Rightarrow> string" where
  "trim s = rev (dropWhile isWhiteSpace (rev (dropWhile isWhiteSpace s)))"

definition startsWith :: "string \<Rightarrow> string \<Rightarrow> bool" where
  "startsWith s p = (take (length p) s = p)"

definition endsWith :: "string \<Rightarrow> string \<Rightarrow> bool" where
  "endsWith s p = (length p \<le> length s \<and> drop (length s - length p) s = p)"

text \<open>
  \<^verbatim>\<open>indexOf\<close> of an array, and of a string with a one-character needle: the first
  position, or -1.
\<close>

fun indexOf :: "'a list \<Rightarrow> 'a \<Rightarrow> int" where
  "indexOf [] c = - 1"
| "indexOf (x # xs) c =
     (if x = c then 0 else (if indexOf xs c < 0 then - 1 else indexOf xs c + 1))"

text \<open>\<^verbatim>\<open>s.substring(k)\<close>: a negative start counts as 0, a start past the end gives \<^verbatim>\<open>""\<close>.\<close>

definition substring :: "string \<Rightarrow> int \<Rightarrow> string" where
  "substring s k = drop (nat k) s"

text \<open>\<^verbatim>\<open>s.slice(0, -k)\<close>: everything but the last \<open>k\<close> code units.\<close>

definition slice_end :: "string \<Rightarrow> nat \<Rightarrow> string" where
  "slice_end s k = take (length s - k) s"

text \<open>\<^verbatim>\<open>s.includes(sub)\<close>: \<open>sub\<close> occurs as a contiguous run.\<close>

fun includes_str :: "string \<Rightarrow> string \<Rightarrow> bool" where
  "includes_str [] sub = (sub = [])"
| "includes_str (x # xs) sub = (startsWith (x # xs) sub \<or> includes_str xs sub)"

text \<open>
  \<^verbatim>\<open>s.toLowerCase()\<close> on the ASCII letters. No other code unit lower-cases to one of
  the letters the sources search for.
\<close>

definition lowerChar :: "char \<Rightarrow> char" where
  "lowerChar c =
     (case map_of (zip ''ABCDEFGHIJKLMNOPQRSTUVWXYZ'' ''abcdefghijklmnopqrstuvwxyz'') c of
        None \<Rightarrow> c
      | Some l \<Rightarrow> l)"

definition toLowerCase :: "string \<Rightarrow> string" where
  "toLowerCase s = map lowerChar s"

text \<open>Decimal rendering of a status code inside a template literal.\<close>

fun digits :: "nat \<Rightarrow> string" where
  "digits n =
     (if n < 10 then [''0123456789'' ! n]
      else digits (n div 10) @ [''0123456789'' ! (n mod 10)])"

section \<open>ResponseParser: \<^verbatim>\<open>_parseJSON\<close>\<close>

text \<open>
  Parsed JSON values. \<^verbatim>\<open>JSON.parse\<close> is a builtin of the platform and not code of the
  repository: it is the parameter \<open>JP\<close> of the model, returning \<open>Inl\<close> the message of the
  \<^verbatim>\<open>SyntaxError\<close> it throws, or \<open>Inr\<close> the value.
\<close>

datatype json =
    JNull
  | JBool bool
  | JNum int
  | JStr string
  | JArr "json list"
  | JObj "(string \<times> json) list"

text \<open>
  \<^verbatim>\<open>
  _parseJSON(text) {
      let c = text.trim();
      if (c.startsWith('```')) c = c.substring(c.indexOf('\n') + 1);
      if (c.endsWith('```')) c = c.slice(0, -3).trim();
      return JSON.parse(c);
  }
  \<close>
\<close>

definition fence :: string where
  "fence = ''```''"

definition stripLeadingFence :: "string \<Rightarrow> string" where
  "stripLeadingFence c =
     (if startsWith c fence then substring c (indexOf c CHR ''\<newline>'' + 1) else c)"

definition stripTrailingFence :: "string \<Rightarrow> string" where
  "stripTrailingFence c = (if endsWith c fence then trim (slice_end c 3) else c)"

definition normalize :: "string \<Rightarrow> string" where
  "normalize text = stripTrailingFence (stripLeadingFence (trim text))"

definition parseJSON :: "(string \<Rightarrow> string + 'a) \<Rightarrow> string \<Rightarrow> string + 'a" where
  "parseJSON JP text = JP (normalize text)"

section \<open>ModelFallbackInvoker: the parts shared by both policies\<close>

text \<open>
  What one HTTP call can do, as far as the invoker looks at it:
  \<^item> \<open>Ok content\<close>: \<^verbatim>\<open>res.ok\<close>, the body was read, and \<open>content\<close> is the model text found
    in it (\<open>None\<close> when the path to the text is missing);
  \<^item> \<open>Status code msg\<close>: a response that is not ok, with its status and the
    \<^verbatim>\<open>error.message\<close> of its body when there is one;
  \<^item> \<open>Throws msg\<close>: the call threw, or an ok body could not be read or holds something
    other than a string where the text should be; \<open>msg\<close> is \<^verbatim>\<open>e.message\<close>.
  The network is the parameter \<open>fetch\<close>: the answer to the request number \<open>n\<close> of one
  invocation, sent to a given model.
\<close>

datatype response = Ok "string option" | Status nat "string option" | Throws string

type_synonym fetcher = "nat \<Rightarrow> string \<Rightarrow> response"

datatype 'a api_result = Success 'a | Failure string

text \<open>
  Observable effects of an invocation, in the order they happen: a request to a model, the
  \<^verbatim>\<open>gemini-rate-limit\<close> event (model, attempt, waitSeconds), and a timer wait in ms.
\<close>

datatype event = Fetch string | Notify string nat nat | Sleep nat

text \<open>
  \<^verbatim>\<open>
  _isRateLimitError(status, msg) {
      if (status === 429) return true;
      if (typeof msg === 'string') {
          const l = msg.toLowerCase();
          return l.includes('quota') || l.includes('rate') || l.includes('resource_exhausted');
      }
      return false;
  }
  \<close>
\<close>

definition isRateLimitError :: "nat \<Rightarrow> string \<Rightarrow> bool" where
  "isRateLimitError status msg =
     (if status = 429 then True
      else (let l = toLowerCase msg
            in includes_str l ''quota'' \<or> includes_str l ''rate''
               \<or> includes_str l ''resource_exhausted''))"

text \<open>\<^verbatim>\<open>a || b\<close> on a string that may be missing: the empty string is falsy.\<close>

definition orElse :: "string option \<Rightarrow> string \<Rightarrow> string" where
  "orElse a b = (case a of None \<Rightarrow> b | Some s \<Rightarrow> (if s = [] then b else s))"

definition errorMessage :: "nat \<Rightarrow> string option \<Rightarrow> string" where
  "errorMessage status msg = orElse msg (''API error ('' @ digits status @ '')'')"

text \<open>
  One pass through the body of the \<^verbatim>\<open>try\<close>: it returns from the whole call (\<open>Done\<close>),
  finds a throttle signal (\<open>Throttled\<close>, with \<^verbatim>\<open>errMsg\<close>), or lands in the \<^verbatim>\<open>catch\<close>
  block (\<open>Caught\<close>, with the new \<^verbatim>\<open>lastError\<close>). \<^verbatim>\<open>_parseJSON\<close> is called inside the
  \<^verbatim>\<open>try\<close>, so the \<^verbatim>\<open>SyntaxError\<close> of \<^verbatim>\<open>JSON.parse\<close> lands in the same \<^verbatim>\<open>catch\<close> as a
  failed request.
\<close>

datatype 'a attempt = Done "'a api_result" | Throttled string | Caught string

definition tryOnce :: "(string \<Rightarrow> string + 'a) \<Rightarrow> response \<Rightarrow> 'a attempt" where
  "tryOnce JP res =
     (case res of
        Ok content \<Rightarrow>
          (case parseJSON JP (orElse content []) of
             Inr parsed \<Rightarrow> Done (Success parsed)
           | Inl msg \<Rightarrow> Caught (orElse (Some msg) ''Network error.''))
      | Status status msg \<Rightarrow>
          (let errMsg = errorMessage status msg
           in if isRateLimitError status errMsg then Throttled errMsg
              else Done (Failure errMsg))
      | Throws msg \<Rightarrow> Caught (orElse (Some msg) ''Network error.''))"

section \<open>Policy A: \<^verbatim>\<open>_callAPI\<close> of the OpenRouter client\<close>

definition maxRetries :: nat where
  "maxRetries = 3"

definition baseBackoff :: nat where
  "baseBackoff = 2000"

definition ALL_MODELS_A :: "string list" where
  "ALL_MODELS_A =
     [''google/gemini-2.5-flash'', ''meta-llama/llama-3.3-70b-instruct:free'',
      ''mistralai/mistral-small-3.1-24b-instruct:free'', ''google/gemma-3-27b-it:free'']"

definition backoff :: "nat \<Rightarrow> nat" where
  "backoff attempt = baseBackoff * 2 ^ (attempt - 1)"

definition waitSeconds :: "nat \<Rightarrow> nat" where
  "waitSeconds wait = (wait + 999) div 1000"

text \<open>
  The inner loop \<^verbatim>\<open>for (let attempt = 1; attempt <= this._maxRetries; attempt++)\<close> on one
  model. It leaves by \<^verbatim>\<open>return\<close> (\<open>Return\<close>) or by \<^verbatim>\<open>break\<close> or exhaustion (\<open>NextModel\<close>,
  with the \<^verbatim>\<open>lastError\<close> in force). The state is the request counter, the events so far
  and \<^verbatim>\<open>lastError\<close>.
\<close>

datatype 'a loop_exit = Return "'a api_result" | NextModel string

function callAPI_attempts ::
  "(string \<Rightarrow> string + 'a) \<Rightarrow> fetcher \<Rightarrow> string \<Rightarrow> nat \<Rightarrow> nat \<Rightarrow> event list \<Rightarrow> string
     \<Rightarrow> 'a loop_exit \<times> nat \<times> event list" where
  "callAPI_attempts JP fetch model attempt n evs lastError =
     (if attempt \<le> maxRetries then
        (case tryOnce JP (fetch n model) of
           Done r \<Rightarrow> (Return r, Suc n, evs @ [Fetch model])
         | Throttled errMsg \<Rightarrow>
             (if attempt < maxRetries then
                callAPI_attempts JP fetch model (Suc attempt) (Suc n)
                  (evs @ [Fetch model,
                          Notify model attempt (waitSeconds (backoff attempt)),
                          Sleep (backoff attempt)])
                  errMsg
              else (NextModel errMsg, Suc n, evs @ [Fetch model]))
         | Caught msg \<Rightarrow>
             (if attempt < maxRetries then
                callAPI_attempts JP fetch model (Suc attempt) (Suc n)
                  (evs @ [Fetch model, Sleep (backoff attempt)]) msg
              else (NextModel msg, Suc n, evs @ [Fetch model])))
      else (NextModel lastError, n, evs))"
  by pat_completeness auto
termination
  by (relation "measure (\<lambda>(JP, fetch, model, attempt, n, evs, lastError).
        Suc maxRetries - attempt)") auto

definition exhaustedA :: "string \<Rightarrow> string" where
  "exhaustedA lastError =
     ''All models are rate-limited or unavailable.\<newline>\<newline>Fix options:\<newline>1. Wait a minute and try again\<newline>2. Check your credits at openrouter.ai\<newline>3. Try a different API key\<newline>\<newline>Last error: ''
     @ lastError"

text \<open>The outer loop \<^verbatim>\<open>for (const model of modelsToTry)\<close>.\<close>

fun callAPI_models ::
  "(string \<Rightarrow> string + 'a) \<Rightarrow> fetcher \<Rightarrow> string list \<Rightarrow> nat \<Rightarrow> event list \<Rightarrow> string
     \<Rightarrow> 'a api_result \<times> nat \<times> event list" where
  "callAPI_models JP fetch [] n evs lastError = (Failure (exhaustedA lastError), n, evs)"
| "callAPI_models JP fetch (model # rest) n evs lastError =
     (case callAPI_attempts JP fetch model 1 n evs lastError of
        (Return r, n', evs') \<Rightarrow> (r, n', evs')
      | (NextModel lastError', n', evs') \<Rightarrow> callAPI_models JP fetch rest n' evs' lastError')"

text \<open>
  \<^verbatim>\<open>_callAPI\<close>: the credential check, then the two loops as one scheduler task. The result
  comes with the number of requests made and the events.
\<close>

definition callAPI ::
  "(string \<Rightarrow> string + 'a) \<Rightarrow> fetcher \<Rightarrow> string \<Rightarrow> string list
     \<Rightarrow> 'a api_result \<times> nat \<times> event list" where
  "callAPI JP fetch apiKey modelsToTry =
     (if apiKey = [] then (Failure ''API key not configured.'', 0, [])
      else callAPI_models JP fetch modelsToTry 0 [] [])"

section \<open>Policy B: \<^verbatim>\<open>_callGemini\<close> of the probing Gemini client\<close>

definition ALL_MODELS_B :: "string list" where
  "ALL_MODELS_B =
     [''gemini-2.5-flash-lite'', ''gemini-2.5-flash'', ''gemini-2.0-flash-lite'',
      ''gemini-2.0-flash'']"

definition exhaustedB :: "string \<Rightarrow> string" where
  "exhaustedB lastError =
     ''All models are rate-limited. This usually means your daily free-tier quota is used up.\<newline>\<newline>Fix options:\<newline>1. Wait until your quota resets (midnight Pacific time)\<newline>2. Create a new API key at aistudio.google.com/apikey\<newline>3. Enable billing on your Google Cloud project for higher limits\<newline>\<newline>Last error: ''
     @ lastError"

text \<open>
  \<^verbatim>\<open>const modelsToTry = [preferred, ...working.filter(m => m !== preferred)];\<close>
\<close>

definition modelsToTry :: "string \<Rightarrow> string list \<Rightarrow> string list" where
  "modelsToTry preferred working = preferred # filter (\<lambda>m. m \<noteq> preferred) working"

text \<open>
  The single loop over the models: one request per model, no wait.
  \<^verbatim>\<open>
  const parsed = this._parseJSON(text);
  if (model !== preferred) parsed._usedModel = model;
  return { success: true, data: parsed };
  \<close>
  A success carries the parsed value and the \<^verbatim>\<open>_usedModel\<close> it holds afterwards. The
  assignment is made only when the model is not the preferred one. On an object or an
  array it sets the property. On a number, a string or a boolean it does nothing (the
  script is not in strict mode) and the value is returned as it is. On \<^verbatim>\<open>null\<close> it throws a
  \<^verbatim>\<open>TypeError\<close>; this happens inside the \<^verbatim>\<open>try\<close>, so the \<^verbatim>\<open>catch\<close> block takes over and the
  loop goes on.
\<close>

definition holdsProperties :: "json \<Rightarrow> bool" where
  "holdsProperties v = (case v of JObj fields \<Rightarrow> True | JArr items \<Rightarrow> True | _ \<Rightarrow> False)"

definition nullPropertyError :: string where
  "nullPropertyError = ''Cannot set properties of null (setting '_usedModel')''"

fun callGemini_models ::
  "(string \<Rightarrow> string + json) \<Rightarrow> fetcher \<Rightarrow> string \<Rightarrow> string list \<Rightarrow> nat \<Rightarrow> event list
     \<Rightarrow> string \<Rightarrow> (json \<times> string option) api_result \<times> nat \<times> event list" where
  "callGemini_models JP fetch preferred [] n evs lastError =
     (Failure (exhaustedB lastError), n, evs)"
| "callGemini_models JP fetch preferred (model # rest) n evs lastError =
     (case tryOnce JP (fetch n model) of
        Done (Success parsed) \<Rightarrow>
          (if model \<noteq> preferred \<and> parsed = JNull then
             callGemini_models JP fetch preferred rest (Suc n) (evs @ [Fetch model])
               (orElse (Some nullPropertyError) ''Network error.'')
           else (Success (parsed,
                          if model \<noteq> preferred \<and> holdsProperties parsed then Some model
                          else None),
                 Suc n, evs @ [Fetch model]))
      | Done (Failure errMsg) \<Rightarrow> (Failure errMsg, Suc n, evs @ [Fetch model])
      | Throttled errMsg \<Rightarrow>
          callGemini_models JP fetch preferred rest (Suc n)
            (evs @ [Fetch model, Notify model 1 0]) errMsg
      | Caught msg \<Rightarrow>
          callGemini_models JP fetch preferred rest (Suc n) (evs @ [Fetch model]) msg)"

definition callGemini ::
  "(string \<Rightarrow> string + json) \<Rightarrow> fetcher \<Rightarrow> string \<Rightarrow> string \<Rightarrow> string list
     \<Rightarrow> (json \<times> string option) api_result \<times> nat \<times> event list" where
  "callGemini JP fetch apiKey preferred working =
     (if apiKey = [] then (Failure ''API key not configured.'', 0, [])
      else callGemini_models JP fetch preferred (modelsToTry preferred working) 0 [] [])"

text \<open>Reading a trace: the models requested, in order, and the waits, in order.\<close>

fun fetched :: "event list \<Rightarrow> string list" where
  "fetched [] = []"
| "fetched (Fetch m # evs) = m # fetched evs"
| "fetched (e # evs) = fetched evs"

fun sleeps :: "event list \<Rightarrow> nat list" where
  "sleeps [] = []"
| "sleeps (Sleep w # evs) = w # sleeps evs"
| "sleeps (e # evs) = sleeps evs"

text \<open>A request whose answer is an ok response with text that parses.\<close>

definition succeeds :: "(string \<Rightarrow> string + 'a) \<Rightarrow> response \<Rightarrow> bool" where
  "succeeds JP res = (case tryOnce JP res of Done (Success parsed) \<Rightarrow> True | _ \<Rightarrow> False)"

text \<open>
  The responses that a run of requests received: request number \<open>n\<close> went to the first
  model of the list, the next number to the next.
\<close>

fun answers :: "fetcher \<Rightarrow> nat \<Rightarrow> string list \<Rightarrow> response list" where
  "answers fetch n [] = []"
| "answers fetch n (m # ms) = fetch n m # answers fetch (Suc n) ms"

text \<open>The same with the model each request went to.\<close>

fun asked :: "fetcher \<Rightarrow> nat \<Rightarrow> string list \<Rightarrow> (string \<times> response) list" where
  "asked fetch n [] = []"
| "asked fetch n (m # ms) = (m, fetch n m) # asked fetch (Suc n) ms"

text \<open>
  A request of policy B that makes the invocation return a success: an ok response with
  text that parses, and no \<^verbatim>\<open>TypeError\<close> from setting \<^verbatim>\<open>_usedModel\<close>.
\<close>

definition returnsB :: "(string \<Rightarrow> string + json) \<Rightarrow> string \<Rightarrow> string \<times> response \<Rightarrow> bool" where
  "returnsB JP preferred x =
     (case tryOnce JP (snd x) of
        Done (Success parsed) \<Rightarrow> fst x = preferred \<or> parsed \<noteq> JNull
      | _ \<Rightarrow> False)"

text \<open>
  The events of policy A on one model whose three requests are all throttled: the request,
  the notification and the wait of attempts 1 and 2, and the request of attempt 3.
\<close>

definition retryTrace :: "string \<Rightarrow> event list" where
  "retryTrace m =
     [Fetch m, Notify m 1 2, Sleep 2000, Fetch m, Notify m 2 4, Sleep 4000, Fetch m]"

section \<open>RequestScheduler: \<^verbatim>\<open>_enqueue\<close>\<close>

text \<open>
  \<^verbatim>\<open>
  _enqueue(fn) {
      this._requestQueue = this._requestQueue.then(async () => {
          const now = Date.now();
          const wait = this._minRequestGap - (now - this._lastRequestTime);
          if (wait > 0) await new Promise(r => setTimeout(r, wait));
          this._lastRequestTime = Date.now();
          return fn();
      });
      return this._requestQueue;
  }
  \<close>
  The clock is simulated: a time in ms that only moves forward. What the scheduler does
  not decide is given with each task: \<open>idle\<close>, the time that passes between the end of the
  previous task and the start of this task's callback; \<open>late\<close>, by how much the timer
  overshoots the requested wait; \<open>duration\<close>, how long the task runs; and \<open>rejects\<close>,
  whether its promise is rejected.
\<close>

record scheduler =
  lastRequestTime :: int
  minRequestGap :: int

record 'a task =
  label :: 'a
  idle :: nat
  late :: nat
  duration :: nat
  rejects :: bool

definition minRequestGap_A :: int where
  "minRequestGap_A = 1000"

definition minRequestGap_B :: int where
  "minRequestGap_B = 4000"

text \<open>
  The callback of one task, from a clock reading \<open>clock\<close>: the scheduler after it, the
  time at which \<^verbatim>\<open>fn\<close> is started, and the clock when \<^verbatim>\<open>fn\<close> has ended.
\<close>

definition runTask :: "scheduler \<Rightarrow> int \<Rightarrow> 'a task \<Rightarrow> scheduler \<times> int \<times> int" where
  "runTask s clock t =
     (let now = clock + int (idle t);
          wait = minRequestGap s - (now - lastRequestTime s);
          started = (if wait > 0 then now + wait + int (late t) else now)
      in (s\<lparr>lastRequestTime := started\<rparr>, started, started + int (duration t)))"

text \<open>
  \<^verbatim>\<open>this._requestQueue.then(...)\<close> puts the callback behind everything already chained:
  the pending chain is a list, and \<^verbatim>\<open>_enqueue\<close> appends to it.
\<close>

definition enqueue :: "'a task list \<Rightarrow> 'a task \<Rightarrow> 'a task list" where
  "enqueue queue t = queue @ [t]"

text \<open>
  Running the chain: each callback starts when the promise before it is fulfilled. A
  rejected promise skips every callback chained behind it, because \<^verbatim>\<open>then\<close> is given
  no rejection handler. The result lists the tasks started, each with the time at which
  it started and the time at which it ended.
\<close>

fun runQueue :: "scheduler \<Rightarrow> int \<Rightarrow> 'a task list \<Rightarrow> ('a \<times> int \<times> int) list" where
  "runQueue s clock [] = []"
| "runQueue s clock (t # ts) =
     (case runTask s clock t of
        (s', started, finished) \<Rightarrow>
          (label t, started, finished)
          # (if rejects t then [] else runQueue s' finished ts))"

definition startOf :: "'a \<times> int \<times> int \<Rightarrow> int" where
  "startOf x = fst (snd x)"

definition endOf :: "'a \<times> int \<times> int \<Rightarrow> int" where
  "endOf x = snd (snd x)"

section \<open>Sessions and the store (\<^verbatim>\<open>storage.js\<close>)\<close>

text \<open>
  The per-turn object and the summary object are what the model returned, parsed. The
  fields are typed here as the prompts ask for them (scores integers, lists of strings),
  and each may be missing.
\<close>

record signals =
  correct_insights :: "string list option"
  misconceptions :: "string list option"
  gaps :: "string list option"

record turn_data =
  question :: "string option"
  thinking :: "string option"
  understanding_signals :: "signals option"
  understanding_score :: "int option"
  difficulty_level :: "string option"
  hint_available :: "bool option"
  encouragement :: "string option"

record summary_data =
  topic_summary :: "string option"
  key_discoveries :: "string list option"
  misconceptions_addressed :: "string list option"
  remaining_gaps :: "string list option"
  overall_understanding :: "int option"
  recommended_next_topics :: "string list option"
  learning_style_notes :: "string option"
  time_well_spent_score :: "int option"

datatype role = User | Assistant

datatype content = Text string | Data turn_data

type_synonym turn = "role \<times> content"

record session =
  sid :: string
  topic :: string
  context_text :: string
  started_at :: string
  ended_at :: "string option"
  is_active :: bool
  total_exchanges :: nat
  final_understanding_score :: int
  highest_difficulty :: string
  hints_used :: nat
  summary :: "summary_data option"
  conversation_history :: "turn list"

text \<open>The store is the array of sessions kept under one key of \<^verbatim>\<open>localStorage\<close>.\<close>

type_synonym store = "session list"

definition createSession :: "string \<Rightarrow> string \<Rightarrow> string \<Rightarrow> string \<Rightarrow> store \<Rightarrow> store" where
  "createSession i t c now sessions =
     \<lparr>sid = i, topic = t, context_text = c, started_at = now, ended_at = None,
      is_active = True, total_exchanges = 0, final_understanding_score = 0,
      highest_difficulty = ''foundational'', hints_used = 0, summary = None,
      conversation_history = []\<rparr> # sessions"

definition getSession :: "store \<Rightarrow> string \<Rightarrow> session option" where
  "getSession sessions i = find (\<lambda>s. sid s = i) sessions"

text \<open>
  \<^verbatim>\<open>updateSession(id, updates)\<close>: \<^verbatim>\<open>Object.assign\<close> on the first session with that id; the
  store is left as it is when there is none. The \<^verbatim>\<open>updates\<close> object is the function that
  overwrites the fields it carries.
\<close>

fun updateSession :: "string \<Rightarrow> (session \<Rightarrow> session) \<Rightarrow> store \<Rightarrow> store" where
  "updateSession i updates [] = []"
| "updateSession i updates (s # ss) =
     (if sid s = i then updates s # ss else s # updateSession i updates ss)"

section \<open>The session page (\<^verbatim>\<open>handleResponse\<close>, \<^verbatim>\<open>handleEndSession\<close>, \<^verbatim>\<open>updateUI\<close>)\<close>

text \<open>The module-level variables of the page.\<close>

record page =
  exchangeCount :: nat
  currentDifficulty :: string
  hintsUsed :: nat
  allCorrectInsights :: "string list"
  allMisconceptions :: "string list"
  allGaps :: "string list"

definition difficultyOrder :: "string list" where
  "difficultyOrder = [''foundational'', ''intermediate'', ''advanced'', ''mastery'']"

text \<open>\<^verbatim>\<open>a || b\<close> on a number that may be missing: 0 is falsy.\<close>

definition orNum :: "int option \<Rightarrow> int \<Rightarrow> int" where
  "orNum a b = (case a of None \<Rightarrow> b | Some v \<Rightarrow> (if v = 0 then b else v))"

text \<open>
  \<^verbatim>\<open>
  signals.correct_insights.forEach(i => {
      if (!allCorrectInsights.includes(i)) allCorrectInsights.push(i);
  });
  \<close>
\<close>

fun pushNew :: "string list \<Rightarrow> string list \<Rightarrow> string list" where
  "pushNew acc [] = acc"
| "pushNew acc (i # items) = pushNew (if i \<in> set acc then acc else acc @ [i]) items"

definition updateUI :: "page \<Rightarrow> turn_data \<Rightarrow> page" where
  "updateUI p aiData =
     (let difficulty = orElse (difficulty_level aiData) ''foundational'';
          sig = (case understanding_signals aiData of
                   None \<Rightarrow> \<lparr>correct_insights = None, misconceptions = None, gaps = None\<rparr>
                 | Some g \<Rightarrow> g)
      in p\<lparr>currentDifficulty := difficulty,
           allCorrectInsights :=
             (case correct_insights sig of
                None \<Rightarrow> allCorrectInsights p
              | Some items \<Rightarrow> pushNew (allCorrectInsights p) items),
           allMisconceptions :=
             (case misconceptions sig of
                None \<Rightarrow> allMisconceptions p
              | Some items \<Rightarrow> pushNew (allMisconceptions p) items),
           allGaps := (case gaps sig of None \<Rightarrow> allGaps p | Some g \<Rightarrow> g)\<rparr>)"

text \<open>
  The model call of a handler is a parameter: what \<^verbatim>\<open>await GeminiAPI.continueDialogue(...)\<close>
  or \<^verbatim>\<open>await GeminiAPI.generateSessionSummary(...)\<close> gives for its arguments, a result
  object or a thrown exception.
\<close>

datatype 'd awaited = Resolved "'d api_result" | Rejected

text \<open>
  The effects of a handler that the store or the model can see, in order: a model call with
  its arguments, and a write of a session to the store.
\<close>

datatype effect = CallModel string "turn list" string | StoreWrite string

text \<open>
  The \<^verbatim>\<open>updates\<close> object that \<^verbatim>\<open>handleResponse\<close> writes after a successful call.
\<close>

definition turnUpdates :: "session \<Rightarrow> turn list \<Rightarrow> nat \<Rightarrow> turn_data \<Rightarrow> session \<Rightarrow> session" where
  "turnUpdates session convHistory count aiData =
     (let score = orNum (understanding_score aiData) 0;
          difficulty = orElse (difficulty_level aiData) ''foundational'';
          currentIdx = indexOf difficultyOrder
                         (orElse (Some (highest_difficulty session)) ''foundational'');
          newIdx = indexOf difficultyOrder difficulty
      in (\<lambda>s. s\<lparr>conversation_history := convHistory,
                  total_exchanges := count,
                  final_understanding_score :=
                    max (orNum (Some (final_understanding_score session)) 0) score,
                  highest_difficulty :=
                    (if newIdx > currentIdx then difficulty
                     else highest_difficulty session)\<rparr>))"

text \<open>
  \<^verbatim>\<open>handleResponse\<close> is an \<^verbatim>\<open>async\<close> function with one \<^verbatim>\<open>await\<close>. Up to the \<^verbatim>\<open>await\<close> it
  reads the session and builds the history to send; these local values stay alive while
  the call is in flight. It writes nothing in this part.
  \<^verbatim>\<open>
  const response = input.value.trim();
  if (!response) return;
  ...
  const session = Storage.getSession(SESSION_ID);
  const convHistory = session.conversation_history || [];
  convHistory.push({ role: 'user', content: response });
  const result = await GeminiAPI.continueDialogue(session.topic, convHistory, response);
  \<close>
  A blank answer returns at once; a missing session makes \<^verbatim>\<open>session.conversation_history\<close>
  throw into the \<^verbatim>\<open>catch\<close> block, which writes nothing either.
\<close>

record pending =
  p_session :: session
  p_convHistory :: "turn list"
  p_response :: string

definition beginResponse :: "string \<Rightarrow> string \<Rightarrow> store \<Rightarrow> pending option" where
  "beginResponse SESSION_ID input sessions =
     (let response = trim input
      in if response = [] then None
         else (case getSession sessions SESSION_ID of
                 None \<Rightarrow> None
               | Some session \<Rightarrow>
                   Some \<lparr>p_session = session,
                         p_convHistory =
                           conversation_history session @ [(User, Text response)],
                         p_response = response\<rparr>))"

text \<open>
  After the \<^verbatim>\<open>await\<close>: the store and the page variables are the ones of that moment, the
  session and the history are the local values read before the call. The writes made
  are listed.
\<close>

definition finishResponse ::
  "string \<Rightarrow> pending \<Rightarrow> turn_data awaited \<Rightarrow> store \<times> page \<Rightarrow> (store \<times> page) \<times> effect list" where
  "finishResponse SESSION_ID p result st =
     (case result of
        Rejected \<Rightarrow> (st, [])
      | Resolved (Failure err) \<Rightarrow>
          ((updateSession SESSION_ID
              (\<lambda>s. s\<lparr>conversation_history := p_convHistory p\<rparr>) (fst st),
            snd st),
           [StoreWrite SESSION_ID])
      | Resolved (Success aiData) \<Rightarrow>
          (let count = Suc (exchangeCount (snd st))
           in ((updateSession SESSION_ID
                  (turnUpdates (p_session p)
                     (p_convHistory p @ [(Assistant, Data aiData)]) count aiData)
                  (fst st),
                updateUI ((snd st)\<lparr>exchangeCount := count\<rparr>) aiData),
               [StoreWrite SESSION_ID])))"

text \<open>
  One answer handled from submission to the end, with nothing else happening while its
  call is in flight.
\<close>

definition handleResponse ::
  "(string \<Rightarrow> turn list \<Rightarrow> string \<Rightarrow> turn_data awaited) \<Rightarrow> string \<Rightarrow> string \<Rightarrow> store \<times> page
     \<Rightarrow> (store \<times> page) \<times> effect list" where
  "handleResponse continueDialogue SESSION_ID input st =
     (case beginResponse SESSION_ID input (fst st) of
        None \<Rightarrow> (st, [])
      | Some p \<Rightarrow>
          (case finishResponse SESSION_ID p
                  (continueDialogue (topic (p_session p)) (p_convHistory p) (p_response p)) st of
             (st', writes) \<Rightarrow>
               (st',
                CallModel (topic (p_session p)) (p_convHistory p) (p_response p) # writes)))"

text \<open>
  The page as the user drives it. The text area stays enabled while a call is in flight
  and its Enter key dispatches \<^verbatim>\<open>submit\<close> directly, so an answer can be submitted before the
  call of the one before it has returned; only the button is disabled. The calls go
  through the scheduler's queue and settle in the order of submission. An action is a
  submitted answer or the settling of the oldest call in flight, with its outcome.
\<close>

datatype action = Submit string | Settle "turn_data awaited"

fun runPage ::
  "string \<Rightarrow> action list \<Rightarrow> (store \<times> page) \<times> pending list
     \<Rightarrow> (store \<times> page) \<times> pending list" where
  "runPage SESSION_ID [] state = state"
| "runPage SESSION_ID (Submit input # rest) state =
     runPage SESSION_ID rest
       (case beginResponse SESSION_ID input (fst (fst state)) of
          None \<Rightarrow> state
        | Some p \<Rightarrow> (fst state, snd state @ [p]))"
| "runPage SESSION_ID (Settle result # rest) state =
     runPage SESSION_ID rest
       (case snd state of
          [] \<Rightarrow> state
        | p # waiting \<Rightarrow> (fst (finishResponse SESSION_ID p result (fst state)), waiting))"

text \<open>
  \<^verbatim>\<open>handleEndSession\<close>, with the time stamp \<open>now\<close> of \<^verbatim>\<open>new Date().toISOString()\<close>.
  \<^verbatim>\<open>
  updates.final_understanding_score =
      summaryResult.data.overall_understanding || session.final_understanding_score;
  \<close>
  The update of the global statistics that follows writes another key and is left out.
\<close>

definition endUpdates :: "session \<Rightarrow> string \<Rightarrow> summary_data api_result \<Rightarrow> session \<Rightarrow> session" where
  "endUpdates session now summaryResult =
     (case summaryResult of
        Success d \<Rightarrow>
          (\<lambda>s. s\<lparr>is_active := False, ended_at := Some now, summary := Some d,
                  final_understanding_score :=
                    orNum (overall_understanding d) (final_understanding_score session)\<rparr>)
      | Failure err \<Rightarrow> (\<lambda>s. s\<lparr>is_active := False, ended_at := Some now\<rparr>))"

definition handleEndSession ::
  "(string \<Rightarrow> turn list \<Rightarrow> summary_data awaited) \<Rightarrow> string \<Rightarrow> string \<Rightarrow> store \<Rightarrow> store" where
  "handleEndSession generateSessionSummary SESSION_ID now sessions =
     (case getSession sessions SESSION_ID of
        None \<Rightarrow> sessions
      | Some session \<Rightarrow>
          (case generateSessionSummary (topic session) (conversation_history session) of
             Rejected \<Rightarrow> sessions
           | Resolved summaryResult \<Rightarrow>
               updateSession SESSION_ID (endUpdates session now summaryResult) sessions))"

text \<open>
  The position of a session's stored difficulty in the enumeration, as \<^verbatim>\<open>handleResponse\<close>
  computes \<^verbatim>\<open>currentIdx\<close>.
\<close>

definition difficultyRank :: "session \<Rightarrow> int" where
  "difficultyRank s =
     indexOf difficultyOrder (orElse (Some (highest_difficulty s)) ''foundational'')"

text \<open>
  A sequence of submitted answers, each with the model call that answers it, handled one
  after the other: each call returns before the next answer is submitted.
\<close>

fun runTurns ::
  "string \<Rightarrow> (string \<times> (string \<Rightarrow> turn list \<Rightarrow> string \<Rightarrow> turn_data awaited)) list
     \<Rightarrow> store \<times> page \<Rightarrow> store \<times> page" where
  "runTurns SESSION_ID [] st = st"
| "runTurns SESSION_ID (t # rest) st =
     runTurns SESSION_ID rest (fst (handleResponse (snd t) SESSION_ID (fst t) st))"

section \<open>Outbound requests: \<^verbatim>\<open>continueDialogue\<close> and \<^verbatim>\<open>generateSessionSummary\<close>\<close>

text \<open>
  A message of the request is a role and a text. \<^verbatim>\<open>JSON.stringify\<close> of a per-turn object
  is the parameter \<open>stringify\<close>; the system prompts are parameters too.
\<close>

type_synonym message = "string \<times> string"

definition maxHistory :: nat where
  "maxHistory = 10"

text \<open>\<^verbatim>\<open>xs.slice(-k)\<close>: the last \<open>k\<close> elements, all of them when there are fewer.\<close>

definition sliceLast :: "nat \<Rightarrow> 'a list \<Rightarrow> 'a list" where
  "sliceLast k xs = drop (length xs - k) xs"

text \<open>\<^verbatim>\<open>String(entry.content)\<close>\<close>

definition stringOf :: "content \<Rightarrow> string" where
  "stringOf c = (case c of Text t \<Rightarrow> t | Data d \<Rightarrow> ''[object Object]'')"

text \<open>
  \<^verbatim>\<open>
  typeof entry.content === 'object'
      ? (entry.content.question || JSON.stringify(entry.content))
      : String(entry.content)
  \<close>
\<close>

definition questionOf :: "(turn_data \<Rightarrow> string) \<Rightarrow> content \<Rightarrow> string" where
  "questionOf stringify c =
     (case c of Data d \<Rightarrow> orElse (question d) (stringify d) | Text t \<Rightarrow> t)"

definition openingStub :: string where
  "openingStub = ''{\"question\":\"Let's explore this.\"}''"

text \<open>The OpenRouter client: roles \<^verbatim>\<open>user\<close> and \<^verbatim>\<open>assistant\<close>.\<close>

definition entryA :: "(turn_data \<Rightarrow> string) \<Rightarrow> turn \<Rightarrow> message" where
  "entryA stringify entry =
     (if fst entry = Assistant then (''assistant'', questionOf stringify (snd entry))
      else (''user'', stringOf (snd entry)))"

definition continueDialogueA ::
  "(turn_data \<Rightarrow> string) \<Rightarrow> string \<Rightarrow> turn list \<Rightarrow> string \<Rightarrow> message list" where
  "continueDialogueA stringify tpc conversationHistory studentResponse =
     (let trimmed = sliceLast maxHistory conversationHistory
      in [(''user'', ''Topic: '' @ tpc), (''assistant'', openingStub)]
         @ map (entryA stringify) trimmed
         @ [(''user'', studentResponse)])"

text \<open>\<^verbatim>\<open>_buildMessages\<close>, for an array of turns and for a single prompt string.\<close>

definition buildMessages :: "string \<Rightarrow> message list \<Rightarrow> message list" where
  "buildMessages systemPrompt contents =
     (if systemPrompt = [] then [] else [(''system'', systemPrompt)]) @ contents"

definition buildMessagesText :: "string \<Rightarrow> string \<Rightarrow> message list" where
  "buildMessagesText systemPrompt contents =
     (if systemPrompt = [] then [] else [(''system'', systemPrompt)]) @ [(''user'', contents)]"

text \<open>The Gemini client: roles \<^verbatim>\<open>user\<close> and \<^verbatim>\<open>model\<close>, one text part per turn.\<close>

definition entryB :: "(turn_data \<Rightarrow> string) \<Rightarrow> turn \<Rightarrow> message" where
  "entryB stringify entry =
     (if fst entry = Assistant then (''model'', questionOf stringify (snd entry))
      else (''user'', stringOf (snd entry)))"

definition continueDialogueB ::
  "(turn_data \<Rightarrow> string) \<Rightarrow> string \<Rightarrow> turn list \<Rightarrow> string \<Rightarrow> message list" where
  "continueDialogueB stringify tpc conversationHistory studentResponse =
     (let trimmed = sliceLast maxHistory conversationHistory
      in [(''user'', ''Topic: '' @ tpc), (''model'', openingStub)]
         @ map (entryB stringify) trimmed
         @ [(''user'', studentResponse)])"

text \<open>
  \<^verbatim>\<open>
  const trimmed = conversationHistory.slice(-12);
  let ctx = `Topic: ${topic}\n`;
  for (const e of trimmed) {
      const r = e.role === 'assistant' ? 'Q' : 'A';
      const c = typeof e.content === 'object' ? (e.content.question || '') : String(e.content);
      ctx += `${r}: ${c}\n`;
  }
  \<close>
\<close>

definition summaryLine :: "turn \<Rightarrow> string" where
  "summaryLine e =
     (let r = (if fst e = Assistant then ''Q'' else ''A'');
          c = (case snd e of Data d \<Rightarrow> orElse (question d) [] | Text t \<Rightarrow> t)
      in r @ '': '' @ c @ ''\<newline>'')"

definition summaryContext :: "string \<Rightarrow> turn list \<Rightarrow> string" where
  "summaryContext tpc conversationHistory =
     (let trimmed = sliceLast 12 conversationHistory
      in ''Topic: '' @ tpc @ ''\<newline>'' @ concat (map summaryLine trimmed))"

definition generateSessionSummaryA :: "string \<Rightarrow> string \<Rightarrow> turn list \<Rightarrow> message list" where
  "generateSessionSummaryA systemPrompt tpc conversationHistory =
     buildMessagesText systemPrompt (summaryContext tpc conversationHistory)"

section \<open>Sample inputs\<close>

text \<open>
  A stand-in for \<^verbatim>\<open>JSON.parse\<close> that knows two documents, for evaluating the parser on
  concrete inputs.
\<close>

definition sampleParse :: "string \<Rightarrow> string + json" where
  "sampleParse s =
     (if s = ''{\"a\":1}'' then Inr (JObj [(''a'', JNum 1)])
      else if s = ''null'' then Inr JNull
      else Inl ''Unexpected token'')"

text \<open>Model replies, model calls with a fixed outcome, and a new session on a new page.\<close>

definition reply :: "int \<Rightarrow> string \<Rightarrow> turn_data" where
  "reply score level =
     \<lparr>question = Some ''Why?'', thinking = None, understanding_signals = None,
      understanding_score = Some score, difficulty_level = Some level,
      hint_available = None, encouragement = None\<rparr>"

definition answering :: "turn_data \<Rightarrow> string \<Rightarrow> turn list \<Rightarrow> string \<Rightarrow> turn_data awaited" where
  "answering d t h r = Resolved (Success d)"

definition failing :: "string \<Rightarrow> string \<Rightarrow> turn list \<Rightarrow> string \<Rightarrow> turn_data awaited" where
  "failing err t h r = Resolved (Failure err)"

definition freshStore :: store where
  "freshStore = createSession ''s1'' ''Recursion'' [] ''2026-01-01T00:00:00.000Z'' []"

definition freshPage :: page where
  "freshPage =
     \<lparr>exchangeCount = 0, currentDifficulty = ''foundational'', hintsUsed = 0,
      allCorrectInsights = [], allMisconceptions = [], allGaps = []\<rparr>"

definition summaryWith :: "int option \<Rightarrow> summary_data" where
  "summaryWith score =
     \<lparr>topic_summary = Some ''Recursion basics'', key_discoveries = None,
      misconceptions_addressed = None, remaining_gaps = None,
      overall_understanding = score, recommended_next_topics = None,
      learning_style_notes = None, time_well_spent_score = None\<rparr>"

definition summarising :: "summary_data \<Rightarrow> string \<Rightarrow> turn list \<Rightarrow> summary_data awaited" where
  "summarising d t h = Resolved (Success d)"

text \<open>The store and page after two answered turns, scored 20 and 65.\<close>

definition twoTurns :: "store \<times> page" where
  "twoTurns =
     runTurns ''s1''
       [(''a base case'', answering (reply 20 ''foundational'')),
        (''it calls itself'', answering (reply 65 ''intermediate''))]
       (freshStore, freshPage)"

definition insightsReply :: turn_data where
  "insightsReply =
     \<lparr>question = Some ''Why?'', thinking = None,
      understanding_signals =
        Some \<lparr>correct_insights = Some [''b'', ''a'', ''b'', ''c''],
              misconceptions = Some [''m''], gaps = Some [''g2'']\<rparr>,
      understanding_score = Some 10, difficulty_level = None,
      hint_available = None, encouragement = None\<rparr>"

definition busyPage :: page where
  "busyPage =
     \<lparr>exchangeCount = 1, currentDifficulty = ''foundational'', hintsUsed = 0,
      allCorrectInsights = [''a''], allMisconceptions = [], allGaps = [''g1'']\<rparr>"


text \<open>
  Two answers submitted one after the other before any call has returned, then the first
  call settling with the level advanced, then the second with the level intermediate.
\<close>

definition overlapping :: "action list" where
  "overlapping =
     [Submit ''first answer'', Submit ''second answer'',
      Settle (Resolved (Success (reply 50 ''advanced''))),
      Settle (Resolved (Success (reply 40 ''intermediate'')))]"

definition earliestTurns :: "turn list" where
  "earliestTurns = [(Assistant, Text ''q00''), (User, Text ''a00'')]"

definition threeLevels ::
  "(string \<times> (string \<Rightarrow> turn list \<Rightarrow> string \<Rightarrow> turn_data awaited)) list" where
  "threeLevels =
     [(''a'', answering (reply 40 ''intermediate'')),
      (''b'', answering (reply 30 ''foundational'')),
      (''c'', answering (reply 50 ''advanced''))]"

definition olderTurns :: "turn list" where
  "olderTurns = [(Assistant, Text ''q0''), (User, Text ''a0'')]"

definition recentTurns :: "turn list" where
  "recentTurns =
     [(Assistant, Text ''q1''), (User, Text ''a1''), (Assistant, Text ''q2''),
      (User, Text ''a2''), (Assistant, Text ''q3''), (User, Text ''a3''),
      (Assistant, Text ''q4''), (User, Text ''a4''), (Assistant, Text ''q5''),
      (User, Text ''a5'')]"

text \<open>A network on which every model but \<^verbatim>\<open>m2\<close> answers 429, and \<^verbatim>\<open>m2\<close> answers the document.\<close>

definition busyThenOk :: fetcher where
  "busyThenOk n m = (if m = ''m2'' then Ok (Some ''{\"a\":1}'') else Status 429 None)"

text \<open>
  A network on which \<^verbatim>\<open>m1\<close> answers 429, \<^verbatim>\<open>m2\<close> answers ok with the text \<^verbatim>\<open>null\<close>, and every
  other model answers the document.
\<close>

definition nullFromSecond :: fetcher where
  "nullFromSecond n m =
     (if m = ''m1'' then Status 429 None
      else if m = ''m2'' then Ok (Some ''null'')
      else Ok (Some ''{\"a\":1}''))"

text \<open>
  Three more networks: every request answered 429; every request answered ok with text
  that is not JSON; every request failing with the message of the sample parser.
\<close>

definition always429 :: fetcher where
  "always429 n m = Status 429 None"

definition notJson :: fetcher where
  "notJson n m = Ok (Some ''not json'')"

definition offline :: fetcher where
  "offline n m = Throws ''Unexpected token''"

text \<open>Three tasks that all complete, and a scheduler that has not run anything yet.\<close>

definition threeTasks :: "string task list" where
  "threeTasks =
     [\<lparr>label = ''a'', idle = 0, late = 0, duration = 300, rejects = False\<rparr>,
      \<lparr>label = ''b'', idle = 10, late = 5, duration = 50, rejects = False\<rparr>,
      \<lparr>label = ''c'', idle = 2000, late = 0, duration = 70, rejects = False\<rparr>]"

definition idleScheduler :: "int \<Rightarrow> scheduler" where
  "idleScheduler gap = \<lparr>lastRequestTime = 0, minRequestGap = gap\<rparr>"

section \<open>Properties of the parser\<close>

lemma dropWhile_hd_id: "xs \<noteq> [] \<Longrightarrow> \<not> P (hd xs) \<Longrightarrow> dropWhile P xs = xs"
  by (cases xs) auto

lemma trim_id:
  assumes "s \<noteq> []" "\<not> isWhiteSpace (hd s)" "\<not> isWhiteSpace (last s)"
  shows "trim s = s"
proof -
  have a: "dropWhile isWhiteSpace s = s"
    using assms by (simp add: dropWhile_hd_id)
  have "hd (rev s) = last s"
    using assms(1) by (simp add: hd_rev)
  then have b: "dropWhile isWhiteSpace (rev s) = rev s"
    using assms by (simp add: dropWhile_hd_id)
  show ?thesis by (simp add: trim_def a b)
qed

lemma indexOf_first: "c \<notin> set xs \<Longrightarrow> indexOf (xs @ c # ys) c = int (length xs)"
  by (induction xs) auto

lemma normalize_fenced:
  assumes "CHR ''\<newline>'' \<notin> set lang"
  shows "normalize (fence @ lang @ CHR ''\<newline>'' # body @ fence) = trim body"
proof -
  let ?c = "fence @ lang @ CHR ''\<newline>'' # body @ fence"
  have t: "trim ?c = ?c"
    by (rule trim_id) (simp_all add: fence_def isWhiteSpace_def)
  have nl: "CHR ''\<newline>'' \<notin> set (fence @ lang)"
    using assms by (simp add: fence_def)
  have "indexOf ((fence @ lang) @ CHR ''\<newline>'' # body @ fence) CHR ''\<newline>''
          = int (length (fence @ lang))"
    by (rule indexOf_first [OF nl])
  then have ix: "indexOf ?c CHR ''\<newline>'' = int (length (fence @ lang))"
    by simp
  have sw: "startsWith ?c fence"
    by (simp add: startsWith_def)
  have l: "stripLeadingFence ?c = body @ fence"
    unfolding stripLeadingFence_def using sw ix
    by (simp add: substring_def nat_add_distrib)
  have ew: "endsWith (body @ fence) fence"
    by (simp add: endsWith_def)
  have "stripTrailingFence (body @ fence) = trim body"
    unfolding stripTrailingFence_def using ew by (simp add: slice_end_def fence_def)
  then show ?thesis by (simp add: normalize_def t l)
qed

lemma normalize_plain:
  "\<not> startsWith (trim text) fence \<Longrightarrow> \<not> endsWith (trim text) fence
     \<Longrightarrow> normalize text = trim text"
  by (simp add: normalize_def stripLeadingFence_def stripTrailingFence_def)

lemma normalize_fenced_example:
  "normalize ''```json\<newline>{\"a\":1}\<newline>```'' = ''{\"a\":1}''"
  by (simp add: normalize_def stripLeadingFence_def stripTrailingFence_def trim_def
      startsWith_def endsWith_def fence_def substring_def slice_end_def isWhiteSpace_def)

lemma normalize_bare_example: "normalize ''{\"a\":1}'' = ''{\"a\":1}''"
  by (simp add: normalize_def stripLeadingFence_def stripTrailingFence_def trim_def
      startsWith_def endsWith_def fence_def isWhiteSpace_def)

lemma normalize_not_json: "normalize ''not json'' = ''not json''"
  by (simp add: normalize_def stripLeadingFence_def stripTrailingFence_def trim_def
      startsWith_def endsWith_def fence_def isWhiteSpace_def)

text \<open>
  C8. The parser removes a leading and a trailing code fence and hands the rest to the
  strict JSON parse. Whenever \<^verbatim>\<open>JSON.parse\<close> maps the text \<^verbatim>\<open>{"a":1}\<close> to the object
  \<^verbatim>\<open>{a:1}\<close> and rejects \<^verbatim>\<open>not json\<close>, the fenced input and the bare input both parse to
  \<^verbatim>\<open>{a:1}\<close>, and \<^verbatim>\<open>not json\<close> fails with the parse error. In general, a text made of an
  opening fence line, a body and a closing fence is parsed as the trimmed body, and a text
  with no fence at either end is parsed as it is, trimmed.
\<close>

theorem parseJSON_fence_examples:
  assumes "JP ''{\"a\":1}'' = Inr (JObj [(''a'', JNum 1)])"
    and "JP ''not json'' = Inl e"
  shows "parseJSON JP ''```json\<newline>{\"a\":1}\<newline>```'' = Inr (JObj [(''a'', JNum 1)])
       \<and> parseJSON JP ''{\"a\":1}'' = Inr (JObj [(''a'', JNum 1)])
       \<and> parseJSON JP ''not json'' = Inl e
       \<and> (\<forall>lang body. CHR ''\<newline>'' \<notin> set lang \<longrightarrow>
             parseJSON JP (fence @ lang @ CHR ''\<newline>'' # body @ fence) = JP (trim body))
       \<and> (\<forall>text. \<not> startsWith (trim text) fence \<and> \<not> endsWith (trim text) fence \<longrightarrow>
             parseJSON JP text = JP (trim text))"
proof -
  have "parseJSON JP ''```json\<newline>{\"a\":1}\<newline>```'' = Inr (JObj [(''a'', JNum 1)])"
    using assms(1) by (simp only: parseJSON_def normalize_fenced_example)
  moreover have "parseJSON JP ''{\"a\":1}'' = Inr (JObj [(''a'', JNum 1)])"
    using assms(1) by (simp only: parseJSON_def normalize_bare_example)
  moreover have "parseJSON JP ''not json'' = Inl e"
    using assms(2) by (simp only: parseJSON_def normalize_not_json)
  moreover have "\<forall>lang body. CHR ''\<newline>'' \<notin> set lang \<longrightarrow>
      parseJSON JP (fence @ lang @ CHR ''\<newline>'' # body @ fence) = JP (trim body)"
    by (simp add: parseJSON_def normalize_fenced)
  moreover have "\<forall>text. \<not> startsWith (trim text) fence \<and> \<not> endsWith (trim text) fence \<longrightarrow>
      parseJSON JP text = JP (trim text)"
    by (simp add: parseJSON_def normalize_plain)
  ultimately show ?thesis by blast
qed

theorem parseJSON_fence_examples_witness:
  "sampleParse ''{\"a\":1}'' = Inr (JObj [(''a'', JNum 1)])
   \<and> sampleParse ''not json'' = Inl ''Unexpected token''
   \<and> parseJSON sampleParse ''```json\<newline>{\"a\":1}\<newline>```'' = Inr (JObj [(''a'', JNum 1)])
   \<and> parseJSON sampleParse ''{\"a\":1}'' = Inr (JObj [(''a'', JNum 1)])
   \<and> parseJSON sampleParse ''not json'' = Inl ''Unexpected token''"
proof -
  have a: "sampleParse ''{\"a\":1}'' = Inr (JObj [(''a'', JNum 1)])"
    by (simp add: sampleParse_def)
  have b: "sampleParse ''not json'' = Inl ''Unexpected token''"
    by (simp add: sampleParse_def)
  show ?thesis using parseJSON_fence_examples [OF a b] a b by simp
qed

section \<open>Properties of the store\<close>

lemma getSession_sid: "getSession sessions i = Some s \<Longrightarrow> sid s = i"
  by (auto simp: getSession_def dest: find_Some_iff [THEN iffD1])

lemma getSession_updateSession:
  "getSession sessions i = Some s \<Longrightarrow> sid (f s) = i
     \<Longrightarrow> getSession (updateSession i f sessions) i = Some (f s)"
  by (induction sessions) (auto simp: getSession_def split: if_splits)

lemmas sample_defs =
  freshStore_def freshPage_def createSession_def handleResponse_def beginResponse_def
  finishResponse_def answering_def
  failing_def reply_def getSession_def turnUpdates_def updateUI_def Let_def trim_def
  isWhiteSpace_def orElse_def orNum_def difficultyOrder_def

section \<open>The dialogue state merge\<close>

lemma pushNew_set: "set (pushNew acc items) = set acc \<union> set items"
  by (induction items arbitrary: acc) auto

lemma pushNew_distinct: "distinct acc \<Longrightarrow> distinct (pushNew acc items)"
  by (induction items arbitrary: acc) auto

lemma pushNew_known: "set items \<subseteq> set acc \<Longrightarrow> pushNew acc items = acc"
  by (induction items arbitrary: acc) auto

lemma pushNew_twice: "pushNew (pushNew acc items) items = pushNew acc items"
  by (rule pushNew_known) (simp add: pushNew_set)

lemma remdups_snoc: "remdups (xs @ [x]) = remdups (filter (\<lambda>y. y \<noteq> x) xs) @ [x]"
  by (induction xs) auto

text \<open>
  The items that are new, each once, in the order of their first occurrence, behind what
  was there.
\<close>

lemma pushNew_explicit:
  "pushNew acc items = acc @ rev (remdups (rev (filter (\<lambda>x. x \<notin> set acc) items)))"
proof (induction items arbitrary: acc)
  case Nil
  show ?case by simp
next
  case (Cons i items)
  show ?case
  proof (cases "i \<in> set acc")
    case True
    then show ?thesis using Cons.IH [of acc] by simp
  next
    case False
    have f: "filter (\<lambda>x. x \<notin> set (acc @ [i])) items
           = filter (\<lambda>y. y \<noteq> i) (filter (\<lambda>x. x \<notin> set acc) items)"
      by (induction items) auto
    show ?thesis using False Cons.IH [of "acc @ [i]"]
      by (simp add: f remdups_snoc rev_filter conj_commute)
  qed
qed

lemma updateUI_insights:
  "understanding_signals aiData = Some sig \<Longrightarrow>
     allCorrectInsights (updateUI p aiData)
       = (case correct_insights sig of
            None \<Rightarrow> allCorrectInsights p
          | Some items \<Rightarrow> pushNew (allCorrectInsights p) items)"
  by (simp add: updateUI_def Let_def)

lemma updateUI_misconceptions:
  "understanding_signals aiData = Some sig \<Longrightarrow>
     allMisconceptions (updateUI p aiData)
       = (case misconceptions sig of
            None \<Rightarrow> allMisconceptions p
          | Some items \<Rightarrow> pushNew (allMisconceptions p) items)"
  by (simp add: updateUI_def Let_def)

lemma updateUI_gaps:
  "understanding_signals aiData = Some sig \<Longrightarrow>
     allGaps (updateUI p aiData) = (case gaps sig of None \<Rightarrow> allGaps p | Some g \<Rightarrow> g)"
  by (simp add: updateUI_def Let_def)

text \<open>
  C4. In \<^verbatim>\<open>updateUI\<close>, the correct insights and the misconceptions of a turn are added to
  the accumulated lists: what was there stays in front, in its order; behind it come the
  items not yet present, each once, in the order of their first occurrence. The gaps of
  the turn replace the accumulated gaps. Merging the same turn a second time changes
  neither accumulated list.
\<close>

theorem updateUI_merge:
  assumes "understanding_signals aiData = Some sig"
  shows "(\<forall>items. correct_insights sig = Some items \<longrightarrow>
            allCorrectInsights (updateUI p aiData)
              = allCorrectInsights p
                @ rev (remdups (rev (filter (\<lambda>x. x \<notin> set (allCorrectInsights p)) items)))
            \<and> set (allCorrectInsights (updateUI p aiData))
                = set (allCorrectInsights p) \<union> set items
            \<and> (distinct (allCorrectInsights p)
                 \<longrightarrow> distinct (allCorrectInsights (updateUI p aiData))))
       \<and> (\<forall>items. misconceptions sig = Some items \<longrightarrow>
            allMisconceptions (updateUI p aiData)
              = allMisconceptions p
                @ rev (remdups (rev (filter (\<lambda>x. x \<notin> set (allMisconceptions p)) items)))
            \<and> set (allMisconceptions (updateUI p aiData))
                = set (allMisconceptions p) \<union> set items
            \<and> (distinct (allMisconceptions p)
                 \<longrightarrow> distinct (allMisconceptions (updateUI p aiData))))
       \<and> (\<forall>g. gaps sig = Some g \<longrightarrow> allGaps (updateUI p aiData) = g)
       \<and> allCorrectInsights (updateUI (updateUI p aiData) aiData)
           = allCorrectInsights (updateUI p aiData)
       \<and> allMisconceptions (updateUI (updateUI p aiData) aiData)
           = allMisconceptions (updateUI p aiData)"
proof -
  note ins = updateUI_insights [OF assms] and mis = updateUI_misconceptions [OF assms]
  have a: "\<forall>items. correct_insights sig = Some items \<longrightarrow>
            allCorrectInsights (updateUI p aiData)
              = allCorrectInsights p
                @ rev (remdups (rev (filter (\<lambda>x. x \<notin> set (allCorrectInsights p)) items)))
            \<and> set (allCorrectInsights (updateUI p aiData))
                = set (allCorrectInsights p) \<union> set items
            \<and> (distinct (allCorrectInsights p)
                 \<longrightarrow> distinct (allCorrectInsights (updateUI p aiData)))"
  proof (intro allI impI)
    fix items
    assume h: "correct_insights sig = Some items"
    have "allCorrectInsights (updateUI p aiData) = pushNew (allCorrectInsights p) items"
      by (simp add: ins h)
    then show "allCorrectInsights (updateUI p aiData)
              = allCorrectInsights p
                @ rev (remdups (rev (filter (\<lambda>x. x \<notin> set (allCorrectInsights p)) items)))
            \<and> set (allCorrectInsights (updateUI p aiData))
                = set (allCorrectInsights p) \<union> set items
            \<and> (distinct (allCorrectInsights p)
                 \<longrightarrow> distinct (allCorrectInsights (updateUI p aiData)))"
      using pushNew_explicit [of "allCorrectInsights p" items]
        pushNew_set [of "allCorrectInsights p" items]
        pushNew_distinct [of "allCorrectInsights p" items]
      by presburger
  qed
  have b: "\<forall>items. misconceptions sig = Some items \<longrightarrow>
            allMisconceptions (updateUI p aiData)
              = allMisconceptions p
                @ rev (remdups (rev (filter (\<lambda>x. x \<notin> set (allMisconceptions p)) items)))
            \<and> set (allMisconceptions (updateUI p aiData))
                = set (allMisconceptions p) \<union> set items
            \<and> (distinct (allMisconceptions p)
                 \<longrightarrow> distinct (allMisconceptions (updateUI p aiData)))"
  proof (intro allI impI)
    fix items
    assume h: "misconceptions sig = Some items"
    have "allMisconceptions (updateUI p aiData) = pushNew (allMisconceptions p) items"
      by (simp add: mis h)
    then show "allMisconceptions (updateUI p aiData)
              = allMisconceptions p
                @ rev (remdups (rev (filter (\<lambda>x. x \<notin> set (allMisconceptions p)) items)))
            \<and> set (allMisconceptions (updateUI p aiData))
                = set (allMisconceptions p) \<union> set items
            \<and> (distinct (allMisconceptions p)
                 \<longrightarrow> distinct (allMisconceptions (updateUI p aiData)))"
      using pushNew_explicit [of "allMisconceptions p" items]
        pushNew_set [of "allMisconceptions p" items]
        pushNew_distinct [of "allMisconceptions p" items]
      by presburger
  qed
  have c: "\<forall>g. gaps sig = Some g \<longrightarrow> allGaps (updateUI p aiData) = g"
    by (simp add: updateUI_gaps [OF assms])
  have d: "allCorrectInsights (updateUI (updateUI p aiData) aiData)
             = allCorrectInsights (updateUI p aiData)"
    by (cases "correct_insights sig") (simp_all add: ins pushNew_twice)
  have e: "allMisconceptions (updateUI (updateUI p aiData) aiData)
             = allMisconceptions (updateUI p aiData)"
    by (cases "misconceptions sig") (simp_all add: mis pushNew_twice)
  from a b c d e show ?thesis by blast
qed

theorem updateUI_merge_witness:
  "understanding_signals insightsReply
     = Some \<lparr>correct_insights = Some [''b'', ''a'', ''b'', ''c''],
             misconceptions = Some [''m''], gaps = Some [''g2'']\<rparr>
   \<and> allCorrectInsights busyPage = [''a'']
   \<and> allCorrectInsights (updateUI busyPage insightsReply) = [''a'', ''b'', ''c'']
   \<and> allMisconceptions (updateUI busyPage insightsReply) = [''m'']
   \<and> allGaps busyPage = [''g1'']
   \<and> allGaps (updateUI busyPage insightsReply) = [''g2'']
   \<and> allCorrectInsights (updateUI (updateUI busyPage insightsReply) insightsReply)
       = [''a'', ''b'', ''c'']"
proof -
  have h: "understanding_signals insightsReply
             = Some \<lparr>correct_insights = Some [''b'', ''a'', ''b'', ''c''],
                     misconceptions = Some [''m''], gaps = Some [''g2'']\<rparr>"
    by (simp add: insightsReply_def)
  have p: "allCorrectInsights busyPage = [''a'']" "allMisconceptions busyPage = []"
    "allGaps busyPage = [''g1'']"
    by (simp_all add: busyPage_def)
  show ?thesis using updateUI_merge [OF h, of busyPage] h p by simp
qed

section \<open>The difficulty ratchet\<close>

lemma indexOf_ge: "- 1 \<le> indexOf xs c"
  by (induction xs) auto

lemma indexOf_mem: "0 \<le> indexOf xs c \<Longrightarrow> c \<in> set xs"
  by (induction xs) (auto split: if_splits)

lemma turnUpdates_sid: "sid (turnUpdates session h c d s) = sid s"
  by (simp add: turnUpdates_def Let_def)

lemma turnUpdates_rank:
  "difficultyRank session \<le> difficultyRank (turnUpdates session h c d s)"
proof -
  let ?difficulty = "orElse (difficulty_level d) ''foundational''"
  let ?new = "indexOf difficultyOrder ?difficulty"
  show ?thesis
  proof (cases "?new > difficultyRank session")
    case True
    have "- 1 \<le> difficultyRank session"
      by (simp add: difficultyRank_def indexOf_ge)
    then have "0 \<le> ?new"
      using True by linarith
    then have "?difficulty \<in> set difficultyOrder"
      by (rule indexOf_mem)
    then have "?difficulty \<noteq> []"
      by (auto simp: difficultyOrder_def)
    then have "orElse (Some ?difficulty) ''foundational'' = ?difficulty"
      by (simp add: orElse_def)
    then have "difficultyRank (turnUpdates session h c d s) = ?new"
      using True by (simp add: turnUpdates_def difficultyRank_def Let_def)
    then show ?thesis
      using True by simp
  next
    case False
    then have "difficultyRank (turnUpdates session h c d s) = difficultyRank session"
      by (simp add: turnUpdates_def difficultyRank_def Let_def)
    then show ?thesis by simp
  qed
qed

lemma beginResponse_stored:
  "trim input \<noteq> [] \<Longrightarrow> getSession sessions i = Some s \<Longrightarrow>
   beginResponse i input sessions
     = Some \<lparr>p_session = s,
             p_convHistory = conversation_history s @ [(User, Text (trim input))],
             p_response = trim input\<rparr>"
  by (simp add: beginResponse_def Let_def)

lemma finishResponse_failure:
  assumes "getSession (fst st) i = Some s"
  shows "snd (finishResponse i p (Resolved (Failure err)) st) = [StoreWrite i]
       \<and> getSession (fst (fst (finishResponse i p (Resolved (Failure err)) st))) i
           = Some (s\<lparr>conversation_history := p_convHistory p\<rparr>)"
proof -
  have "sid s = i"
    using assms by (rule getSession_sid)
  then show ?thesis
    using assms by (simp add: finishResponse_def getSession_updateSession)
qed

lemma finishResponse_success:
  assumes "getSession (fst st) i = Some s"
  shows "snd (finishResponse i p (Resolved (Success d)) st) = [StoreWrite i]
       \<and> getSession (fst (fst (finishResponse i p (Resolved (Success d)) st))) i
           = Some (turnUpdates (p_session p) (p_convHistory p @ [(Assistant, Data d)])
                     (Suc (exchangeCount (snd st))) d s)"
proof -
  have "sid s = i"
    using assms by (rule getSession_sid)
  then show ?thesis
    using assms
    by (simp add: finishResponse_def Let_def getSession_updateSession turnUpdates_sid)
qed

lemma handleResponse_failure:
  assumes "trim input \<noteq> []"
    and "getSession (fst st) i = Some s"
    and "api (topic s) (conversation_history s @ [(User, Text (trim input))]) (trim input)
           = Resolved (Failure err)"
  shows "snd (handleResponse api i input st)
           = [CallModel (topic s) (conversation_history s @ [(User, Text (trim input))])
                (trim input),
              StoreWrite i]
       \<and> getSession (fst (fst (handleResponse api i input st))) i
           = Some (s\<lparr>conversation_history :=
                       conversation_history s @ [(User, Text (trim input))]\<rparr>)"
  using finishResponse_failure
          [OF assms(2),
           where p = "\<lparr>p_session = s,
                       p_convHistory = conversation_history s @ [(User, Text (trim input))],
                       p_response = trim input\<rparr>"
             and err = err]
    assms(3)
  by (simp add: handleResponse_def beginResponse_stored [OF assms(1,2)] split_beta)

lemma handleResponse_success:
  assumes "trim input \<noteq> []"
    and "getSession (fst st) i = Some s"
    and "api (topic s) (conversation_history s @ [(User, Text (trim input))]) (trim input)
           = Resolved (Success d)"
  shows "getSession (fst (fst (handleResponse api i input st))) i
           = Some (turnUpdates s
                     (conversation_history s
                      @ [(User, Text (trim input)), (Assistant, Data d)])
                     (Suc (exchangeCount (snd st))) d s)"
  using finishResponse_success
          [OF assms(2),
           where p = "\<lparr>p_session = s,
                       p_convHistory = conversation_history s @ [(User, Text (trim input))],
                       p_response = trim input\<rparr>"
             and d = d]
    assms(3)
  by (simp add: handleResponse_def beginResponse_stored [OF assms(1,2)] split_beta)

lemma handleResponse_rank:
  assumes "getSession (fst st) i = Some s"
  shows "\<exists>s'. getSession (fst (fst (handleResponse api i input st))) i = Some s'
           \<and> difficultyRank s \<le> difficultyRank s'"
proof (cases "trim input = []")
  case True
  then show ?thesis
    using assms by (simp add: handleResponse_def beginResponse_def)
next
  case False
  let ?h = "conversation_history s @ [(User, Text (trim input))]"
  show ?thesis
  proof (cases "api (topic s) ?h (trim input)")
    case Rejected
    then show ?thesis
      using assms
      by (simp add: handleResponse_def beginResponse_stored [OF False assms]
          finishResponse_def)
  next
    case (Resolved r)
    show ?thesis
    proof (cases r)
      case (Failure err)
      then show ?thesis
        using handleResponse_failure [OF False assms, of api err] Resolved
        by (simp add: difficultyRank_def)
    next
      case (Success d)
      then show ?thesis
        using handleResponse_success [OF False assms, of api d] Resolved
          turnUpdates_rank [of s _ _ d s]
        by simp
    qed
  qed
qed

text \<open>
  Answers handled one after the other, each call returning before the next answer is
  submitted, never lower the position of the stored level: the levels intermediate,
  foundational, advanced leave a new session at advanced.
\<close>

lemma runTurns_rank:
  "getSession (fst st) i = Some s
     \<Longrightarrow> \<exists>s'. getSession (fst (runTurns i turns st)) i = Some s'
           \<and> difficultyRank s \<le> difficultyRank s'"
proof (induction turns arbitrary: st s)
  case Nil
  then show ?case by simp
next
  case (Cons t turns)
  obtain s1 where s1: "getSession (fst (fst (handleResponse (snd t) i (fst t) st))) i = Some s1"
    and r1: "difficultyRank s \<le> difficultyRank s1"
    using handleResponse_rank [OF Cons.prems] by blast
  obtain s2
    where "getSession (fst (runTurns i turns (fst (handleResponse (snd t) i (fst t) st)))) i
             = Some s2"
      and "difficultyRank s1 \<le> difficultyRank s2"
    using Cons.IH [OF s1] by blast
  then show ?case
    using r1 by auto
qed

lemma runTurns_three_levels:
  "map (indexOf difficultyOrder)
     [''foundational'', ''intermediate'', ''advanced'', ''mastery''] = [0, 1, 2, 3]
   \<and> map_option highest_difficulty
       (getSession (fst (runTurns ''s1'' (take 2 threeLevels) (freshStore, freshPage)))
          ''s1'') = Some ''intermediate''
   \<and> map_option highest_difficulty
       (getSession (fst (runTurns ''s1'' threeLevels (freshStore, freshPage))) ''s1'')
       = Some ''advanced''"
  by (simp add: threeLevels_def sample_defs)

text \<open>
  An answer whose call settles before anything else happens on the page is one
  \<^verbatim>\<open>handleResponse\<close>.
\<close>

lemma handleResponse_as_actions:
  "beginResponse i input (fst st) = Some p \<Longrightarrow>
   fst (runPage i
          [Submit input, Settle (api (topic (p_session p)) (p_convHistory p) (p_response p))]
          (st, []))
     = fst (handleResponse api i input st)"
  by (simp add: handleResponse_def split_beta)

text \<open>
  C3. The stored \<^verbatim>\<open>highest_difficulty\<close> is never to go down. \<^verbatim>\<open>handleResponse\<close> computes the new
  level from the session it read before the model call and writes it after the call. Here
  a second answer is submitted while the call of the first is in flight, so both read the
  level foundational. The first call returns advanced and advanced is stored; the second
  returns intermediate, which is higher than the foundational it read, and intermediate
  is stored over advanced. The history written with it holds the second exchange only.
\<close>

theorem overlapping_answers_lower_highest_difficulty:
  "map_option highest_difficulty
     (getSession (fst (fst (runPage ''s1'' (take 3 overlapping) ((freshStore, freshPage), []))))
        ''s1'') = Some ''advanced''
   \<and> map_option highest_difficulty
       (getSession (fst (fst (runPage ''s1'' overlapping ((freshStore, freshPage), []))))
          ''s1'') = Some ''intermediate''
   \<and> indexOf difficultyOrder ''intermediate'' < indexOf difficultyOrder ''advanced''
   \<and> map_option conversation_history
       (getSession (fst (fst (runPage ''s1'' overlapping ((freshStore, freshPage), []))))
          ''s1'')
       = Some [(User, Text ''second answer''), (Assistant, Data (reply 40 ''intermediate''))]"
  by (simp add: overlapping_def sample_defs)

section \<open>Ending a session\<close>

lemma handleEndSession_success:
  assumes "getSession sessions i = Some s"
    and "summarise (topic s) (conversation_history s) = Resolved (Success d)"
  shows "getSession (handleEndSession summarise i now sessions) i
         = Some (s\<lparr>is_active := False, ended_at := Some now, summary := Some d,
                   final_understanding_score :=
                     orNum (overall_understanding d) (final_understanding_score s)\<rparr>)"
proof -
  have "sid s = i"
    using assms(1) by (rule getSession_sid)
  then show ?thesis
    using assms by (simp add: handleEndSession_def endUpdates_def getSession_updateSession)
qed

lemma twoTurns_session:
  "map_option (\<lambda>s. (total_exchanges s, final_understanding_score s, highest_difficulty s,
                     is_active s))
     (getSession (fst twoTurns) ''s1'') = Some (2, 65, ''intermediate'', True)"
  by (simp add: twoTurns_def sample_defs)

text \<open>
  What a successful summary does to the session: it becomes inactive and stores the
  summary; an \<^verbatim>\<open>overall_understanding\<close> that is present and not 0 overwrites
  \<^verbatim>\<open>final_understanding_score\<close> (no maximum is taken), and one that is missing or 0 leaves
  the score as it was. Ending with \<^verbatim>\<open>overall_understanding\<close> 80 after a running maximum of
  65 leaves the score 80.
\<close>

lemma end_session_score:
  assumes "getSession sessions i = Some s"
    and "summarise (topic s) (conversation_history s) = Resolved (Success d)"
  shows "(\<exists>s'. getSession (handleEndSession summarise i now sessions) i = Some s'
            \<and> \<not> is_active s' \<and> summary s' = Some d
            \<and> (\<forall>v. overall_understanding d = Some v \<and> v \<noteq> 0
                   \<longrightarrow> final_understanding_score s' = v)
            \<and> (overall_understanding d = None \<or> overall_understanding d = Some 0
                   \<longrightarrow> final_understanding_score s' = final_understanding_score s))
       \<and> map_option (\<lambda>s. (final_understanding_score s, is_active s))
           (getSession
              (handleEndSession (summarising (summaryWith (Some 80))) ''s1''
                 ''2026-01-01T00:30:00.000Z'' (fst twoTurns))
              ''s1'') = Some (80, False)"
proof -
  let ?s' = "s\<lparr>is_active := False, ended_at := Some now, summary := Some d,
                final_understanding_score :=
                  orNum (overall_understanding d) (final_understanding_score s)\<rparr>"
  have g: "getSession (handleEndSession summarise i now sessions) i = Some ?s'"
    using assms by (rule handleEndSession_success)
  have p: "\<not> is_active ?s' \<and> summary ?s' = Some d
            \<and> (\<forall>v. overall_understanding d = Some v \<and> v \<noteq> 0
                   \<longrightarrow> final_understanding_score ?s' = v)
            \<and> (overall_understanding d = None \<or> overall_understanding d = Some 0
                   \<longrightarrow> final_understanding_score ?s' = final_understanding_score s)"
    by (auto simp: orNum_def)
  have e: "map_option (\<lambda>s. (final_understanding_score s, is_active s))
           (getSession
              (handleEndSession (summarising (summaryWith (Some 80))) ''s1''
                 ''2026-01-01T00:30:00.000Z'' (fst twoTurns))
              ''s1'') = Some (80, False)"
    by (simp add: twoTurns_def sample_defs handleEndSession_def summarising_def
        summaryWith_def endUpdates_def)
  from g p e show ?thesis by blast
qed

text \<open>
  C5. The summary's \<^verbatim>\<open>overall_understanding\<close> is to overwrite \<^verbatim>\<open>final_understanding_score\<close>
  whenever it is present. Here the session has the running maximum 65 and is ended with a
  summary whose \<^verbatim>\<open>overall_understanding\<close> is present with the value 0, a score the summary
  prompt allows: the session becomes inactive, but the stored score stays 65 and is not the
  0 of the summary.
\<close>

theorem end_session_zero_keeps_previous_score:
  "overall_understanding (summaryWith (Some 0)) = Some 0
   \<and> map_option final_understanding_score (getSession (fst twoTurns) ''s1'') = Some 65
   \<and> map_option (\<lambda>s. (final_understanding_score s, is_active s))
       (getSession
          (handleEndSession (summarising (summaryWith (Some 0))) ''s1''
             ''2026-01-01T00:30:00.000Z'' (fst twoTurns))
          ''s1'') = Some (65, False)"
  by (simp add: twoTurns_def sample_defs handleEndSession_def summarising_def
      summaryWith_def endUpdates_def)

section \<open>Persisting the user's answer\<close>




section \<open>What the outbound request holds of the history\<close>

lemma sliceLast_append: "length recent = k \<Longrightarrow> sliceLast k (older @ recent) = recent"
  by (simp add: sliceLast_def)

lemma sliceLast_length: "length (sliceLast k xs) = min k (length xs)"
  by (simp add: sliceLast_def)

lemma turnUpdates_history:
  "conversation_history (turnUpdates session h c d s) = h"
  by (simp add: turnUpdates_def Let_def)

lemma continueDialogueA_sent:
  "continueDialogueA stringify t h r
     = [(''user'', ''Topic: '' @ t), (''assistant'', openingStub)]
       @ map (entryA stringify) (drop (length h - 10) h) @ [(''user'', r)]"
  by (simp add: continueDialogueA_def maxHistory_def Let_def sliceLast_def)

lemma continueDialogueB_sent:
  "continueDialogueB stringify t h r
     = [(''user'', ''Topic: '' @ t), (''model'', openingStub)]
       @ map (entryB stringify) (drop (length h - 10) h) @ [(''user'', r)]"
  by (simp add: continueDialogueB_def maxHistory_def Let_def sliceLast_def)

lemma generateSessionSummaryA_sent:
  "generateSessionSummaryA systemPrompt t h
     = (if systemPrompt = [] then [] else [(''system'', systemPrompt)])
       @ [(''user'',
           ''Topic: '' @ t @ ''\<newline>'' @ concat (map summaryLine (drop (length h - 12) h)))]"
  by (simp add: generateSessionSummaryA_def buildMessagesText_def summaryContext_def Let_def
      sliceLast_def)

lemma entry_texts:
  "entryA stringify (Assistant, Text q) = (''assistant'', q)"
  "entryA stringify (Assistant, Data d) = (''assistant'', orElse (question d) (stringify d))"
  "entryA stringify (User, Text q) = (''user'', q)"
  "entryA stringify (User, Data d) = (''user'', ''[object Object]'')"
  "entryB stringify (Assistant, Text q) = (''model'', q)"
  "entryB stringify (Assistant, Data d) = (''model'', orElse (question d) (stringify d))"
  "entryB stringify (User, Text q) = (''user'', q)"
  "entryB stringify (User, Data d) = (''user'', ''[object Object]'')"
  "summaryLine (Assistant, Text q) = ''Q: '' @ q @ ''\<newline>''"
  "summaryLine (Assistant, Data d) = ''Q: '' @ orElse (question d) [] @ ''\<newline>''"
  "summaryLine (User, Text q) = ''A: '' @ q @ ''\<newline>''"
  "summaryLine (User, Data d) = ''A: '' @ orElse (question d) [] @ ''\<newline>''"
  by (simp_all add: entryA_def entryB_def questionOf_def stringOf_def summaryLine_def Let_def)

text \<open>
  C10. \<^verbatim>\<open>continueDialogue\<close> of both clients sends the two opening messages, then the last
  10 turns of the history it is given, each as one message with the text of the turn, then
  the student's response: at most 13 messages, none of them from an earlier turn.
  \<^verbatim>\<open>generateSessionSummary\<close> sends the system prompt and one message that holds the topic
  line and one line for each of the last 12 turns, and nothing of an earlier turn. Turns
  before the last 10 (or 12) do not change the request. The history that \<^verbatim>\<open>handleResponse\<close>
  writes after a successful call is the whole history it read with the two new turns,
  whatever its length and whatever the store holds by then.
\<close>

theorem outbound_history_trimmed:
  "continueDialogueA stringify t h r
     = [(''user'', ''Topic: '' @ t), (''assistant'', openingStub)]
       @ map (entryA stringify) (drop (length h - 10) h) @ [(''user'', r)]
   \<and> continueDialogueB stringify t h r
       = [(''user'', ''Topic: '' @ t), (''model'', openingStub)]
         @ map (entryB stringify) (drop (length h - 10) h) @ [(''user'', r)]
   \<and> generateSessionSummaryA systemPrompt t h
       = (if systemPrompt = [] then [] else [(''system'', systemPrompt)])
         @ [(''user'',
             ''Topic: '' @ t @ ''\<newline>''
             @ concat (map summaryLine (drop (length h - 12) h)))]
   \<and> (\<forall>older recent. length recent = 10 \<longrightarrow>
         continueDialogueA stringify t (older @ recent) r
           = continueDialogueA stringify t recent r
         \<and> continueDialogueB stringify t (older @ recent) r
             = continueDialogueB stringify t recent r)
   \<and> (\<forall>older recent. length recent = 12 \<longrightarrow>
         generateSessionSummaryA systemPrompt t (older @ recent)
           = generateSessionSummaryA systemPrompt t recent)
   \<and> length (continueDialogueA stringify t h r) = min 10 (length h) + 3
   \<and> length (continueDialogueB stringify t h r) = min 10 (length h) + 3
   \<and> openingStub = ''{\"question\":\"Let's explore this.\"}''
   \<and> entryA stringify (Assistant, Text q) = (''assistant'', q)
   \<and> entryA stringify (Assistant, Data dat)
       = (''assistant'', orElse (question dat) (stringify dat))
   \<and> entryA stringify (User, Text q) = (''user'', q)
   \<and> entryA stringify (User, Data dat) = (''user'', ''[object Object]'')
   \<and> entryB stringify (Assistant, Text q) = (''model'', q)
   \<and> entryB stringify (Assistant, Data dat)
       = (''model'', orElse (question dat) (stringify dat))
   \<and> entryB stringify (User, Text q) = (''user'', q)
   \<and> entryB stringify (User, Data dat) = (''user'', ''[object Object]'')
   \<and> summaryLine (Assistant, Text q) = ''Q: '' @ q @ ''\<newline>''
   \<and> summaryLine (Assistant, Data dat) = ''Q: '' @ orElse (question dat) [] @ ''\<newline>''
   \<and> summaryLine (User, Text q) = ''A: '' @ q @ ''\<newline>''
   \<and> summaryLine (User, Data dat) = ''A: '' @ orElse (question dat) [] @ ''\<newline>''
   \<and> (\<forall>p (st' :: store \<times> page) s'.
         trim input \<noteq> [] \<and> getSession sessions i = Some s
         \<and> beginResponse i input sessions = Some p \<and> getSession (fst st') i = Some s'
         \<longrightarrow> map_option conversation_history
               (getSession (fst (fst (finishResponse i p (Resolved (Success d)) st'))) i)
             = Some (conversation_history s
                     @ [(User, Text (trim input)), (Assistant, Data d)]))"
proof -
  have inv10: "\<forall>older recent. length recent = 10 \<longrightarrow>
         continueDialogueA stringify t (older @ recent) r
           = continueDialogueA stringify t recent r
         \<and> continueDialogueB stringify t (older @ recent) r
             = continueDialogueB stringify t recent r"
    by (simp add: continueDialogueA_sent continueDialogueB_sent)
  have inv12: "\<forall>older recent. length recent = 12 \<longrightarrow>
         generateSessionSummaryA systemPrompt t (older @ recent)
           = generateSessionSummaryA systemPrompt t recent"
    by (simp add: generateSessionSummaryA_sent)
  have lenA: "length (continueDialogueA stringify t h r) = min 10 (length h) + 3"
    by (simp add: continueDialogueA_sent)
  have lenB: "length (continueDialogueB stringify t h r) = min 10 (length h) + 3"
    by (simp add: continueDialogueB_sent)
  have stub: "openingStub = ''{\"question\":\"Let's explore this.\"}''"
    by (simp add: openingStub_def)
  have kept: "\<forall>p (st' :: store \<times> page) s'.
         trim input \<noteq> [] \<and> getSession sessions i = Some s
         \<and> beginResponse i input sessions = Some p \<and> getSession (fst st') i = Some s'
         \<longrightarrow> map_option conversation_history
               (getSession (fst (fst (finishResponse i p (Resolved (Success d)) st'))) i)
             = Some (conversation_history s
                     @ [(User, Text (trim input)), (Assistant, Data d)])"
  proof (intro allI impI)
    fix p and st' :: "store \<times> page" and s'
    assume a: "trim input \<noteq> [] \<and> getSession sessions i = Some s
         \<and> beginResponse i input sessions = Some p \<and> getSession (fst st') i = Some s'"
    then have p: "p_convHistory p = conversation_history s @ [(User, Text (trim input))]"
      using beginResponse_stored [of input sessions i s] by auto
    have "getSession (fst (fst (finishResponse i p (Resolved (Success d)) st'))) i
            = Some (turnUpdates (p_session p) (p_convHistory p @ [(Assistant, Data d)])
                      (Suc (exchangeCount (snd st'))) d s')"
      using finishResponse_success [of st' i s' p d] a by blast
    then show "map_option conversation_history
               (getSession (fst (fst (finishResponse i p (Resolved (Success d)) st'))) i)
             = Some (conversation_history s
                     @ [(User, Text (trim input)), (Assistant, Data d)])"
      by (simp add: turnUpdates_history p)
  qed
  note sent = continueDialogueA_sent [of stringify t h r]
    continueDialogueB_sent [of stringify t h r]
    generateSessionSummaryA_sent [of systemPrompt t h]
  show ?thesis
    by (intro conjI)
      (rule sent inv10 inv12 lenA lenB stub kept entry_texts)+
qed

theorem outbound_history_trimmed_witness:
  "length recentTurns = 10
   \<and> length (olderTurns @ recentTurns) = 12
   \<and> continueDialogueA (\<lambda>d. []) ''Recursion'' (olderTurns @ recentTurns) ''a6''
       = continueDialogueA (\<lambda>d. []) ''Recursion'' recentTurns ''a6''
   \<and> continueDialogueB (\<lambda>d. []) ''Recursion'' (olderTurns @ recentTurns) ''a6''
       = [(''user'', ''Topic: Recursion''),
          (''model'', ''{\"question\":\"Let's explore this.\"}''),
          (''model'', ''q1''), (''user'', ''a1''), (''model'', ''q2''), (''user'', ''a2''),
          (''model'', ''q3''), (''user'', ''a3''), (''model'', ''q4''), (''user'', ''a4''),
          (''model'', ''q5''), (''user'', ''a5''), (''user'', ''a6'')]
   \<and> generateSessionSummaryA ''Summarize.'' ''Recursion''
         (earliestTurns @ olderTurns @ recentTurns)
       = [(''system'', ''Summarize.''),
          (''user'',
           ''Topic: Recursion\<newline>Q: q0\<newline>A: a0\<newline>Q: q1\<newline>A: a1\<newline>Q: q2\<newline>A: a2\<newline>Q: q3\<newline>A: a3\<newline>Q: q4\<newline>A: a4\<newline>Q: q5\<newline>A: a5\<newline>'')]
   \<and> (''assistant'', ''q0'')
       \<notin> set (continueDialogueA (\<lambda>d. []) ''Recursion'' (olderTurns @ recentTurns) ''a6'')"
proof -
  have l: "length recentTurns = 10"
    by (simp add: recentTurns_def)
  have m: "length (olderTurns @ recentTurns) = 12"
    by (simp add: recentTurns_def olderTurns_def)
  note T = outbound_history_trimmed
             [where stringify = "\<lambda>d. []" and t = "''Recursion''" and r = "''a6''"
                and systemPrompt = "''Summarize.''"]
  note inv10 = T [THEN conjunct2, THEN conjunct2, THEN conjunct2, THEN conjunct1,
                  rule_format, OF l]
  note inv12 = T [THEN conjunct2, THEN conjunct2, THEN conjunct2, THEN conjunct2,
                  THEN conjunct1, rule_format, OF m]
  have kA: "continueDialogueA (\<lambda>d. []) ''Recursion'' (olderTurns @ recentTurns) ''a6''
              = continueDialogueA (\<lambda>d. []) ''Recursion'' recentTurns ''a6''"
    using inv10 [THEN conjunct1] .
  have kB: "continueDialogueB (\<lambda>d. []) ''Recursion'' (olderTurns @ recentTurns) ''a6''
              = continueDialogueB (\<lambda>d. []) ''Recursion'' recentTurns ''a6''"
    using inv10 [THEN conjunct2] .
  have eB: "continueDialogueB (\<lambda>d. []) ''Recursion'' recentTurns ''a6''
       = [(''user'', ''Topic: Recursion''),
          (''model'', ''{\"question\":\"Let's explore this.\"}''),
          (''model'', ''q1''), (''user'', ''a1''), (''model'', ''q2''), (''user'', ''a2''),
          (''model'', ''q3''), (''user'', ''a3''), (''model'', ''q4''), (''user'', ''a4''),
          (''model'', ''q5''), (''user'', ''a5''), (''user'', ''a6'')]"
    by (simp add: continueDialogueB_def maxHistory_def Let_def sliceLast_def
        recentTurns_def entryB_def questionOf_def stringOf_def openingStub_def)
  have kS: "generateSessionSummaryA ''Summarize.'' ''Recursion''
              (earliestTurns @ olderTurns @ recentTurns)
            = generateSessionSummaryA ''Summarize.'' ''Recursion'' (olderTurns @ recentTurns)"
    using inv12 .
  have eS: "generateSessionSummaryA ''Summarize.'' ''Recursion'' (olderTurns @ recentTurns)
       = [(''system'', ''Summarize.''),
          (''user'',
           ''Topic: Recursion\<newline>Q: q0\<newline>A: a0\<newline>Q: q1\<newline>A: a1\<newline>Q: q2\<newline>A: a2\<newline>Q: q3\<newline>A: a3\<newline>Q: q4\<newline>A: a4\<newline>Q: q5\<newline>A: a5\<newline>'')]"
    by (simp add: generateSessionSummaryA_def buildMessagesText_def summaryContext_def
        Let_def sliceLast_def recentTurns_def olderTurns_def summaryLine_def)
  have n: "(''assistant'', ''q0'')
             \<notin> set (continueDialogueA (\<lambda>d. []) ''Recursion'' recentTurns ''a6'')"
    by (simp add: continueDialogueA_def maxHistory_def Let_def sliceLast_def
        recentTurns_def entryA_def questionOf_def stringOf_def openingStub_def)
  from l m kA kB [unfolded eB] kS [unfolded eS] n [folded kA] show ?thesis
    by (intro conjI)
qed

section \<open>The order of the requests of an invocation\<close>

declare callAPI_attempts.simps [simp del]

lemma fetched_append: "fetched (xs @ ys) = fetched xs @ fetched ys"
  by (induction xs rule: fetched.induct) auto

lemma answers_append:
  "answers fetch n (xs @ ys) = answers fetch n xs @ answers fetch (n + length xs) ys"
  by (induction xs arbitrary: n) auto

lemma length_answers: "length (answers fetch n ms) = length ms"
  by (induction ms arbitrary: n) auto

lemma succeeds_iff: "succeeds JP r \<longleftrightarrow> (\<exists>d. tryOnce JP r = Done (Success d))"
  by (auto simp: succeeds_def split: attempt.splits api_result.splits)

lemma attempts_trace:
  "callAPI_attempts JP fetch m a n evs le = (ex, n', evs') \<Longrightarrow>
   \<exists>k new. n' = n + k \<and> evs' = evs @ new \<and> fetched new = replicate k m
     \<and> k \<le> Suc maxRetries - a \<and> (a \<le> maxRetries \<longrightarrow> 0 < k)
     \<and> (\<forall>r \<in> set (butlast (answers fetch n (replicate k m))). \<not> succeeds JP r)
     \<and> (\<forall>d. ex = Return (Success d) \<longrightarrow>
            tryOnce JP (last (answers fetch n (replicate k m))) = Done (Success d))
     \<and> ((\<forall>d. ex \<noteq> Return (Success d)) \<longrightarrow>
            (\<forall>r \<in> set (answers fetch n (replicate k m)). \<not> succeeds JP r))"
proof (induction JP fetch m a n evs le arbitrary: ex n' evs' rule: callAPI_attempts.induct)
  case (1 JP fetch model attempt n evs lastError)
  show ?case
  proof (cases "attempt \<le> maxRetries")
    case False
    then have "n' = n" "evs' = evs" "ex = NextModel lastError"
      using "1.prems" by (simp_all add: callAPI_attempts.simps)
    then show ?thesis
      using False by (intro exI [of _ 0] exI [of _ "[]"]) simp
  next
    case le: True
    show ?thesis
    proof (cases "tryOnce JP (fetch n model)")
      case (Done r)
      then have e: "ex = Return r" "n' = Suc n" "evs' = evs @ [Fetch model]"
        using "1.prems" le by (simp_all add: callAPI_attempts.simps)
      show ?thesis
        using e le Done
        by (intro exI [of _ 1] exI [of _ "[Fetch model]"]) (auto simp: succeeds_iff)
    next
      case (Throttled errMsg)
      show ?thesis
      proof (cases "attempt < maxRetries")
        case False
        then have e: "ex = NextModel errMsg" "n' = Suc n" "evs' = evs @ [Fetch model]"
          using "1.prems" le Throttled by (simp_all add: callAPI_attempts.simps)
        show ?thesis
          using e le Throttled
          by (intro exI [of _ 1] exI [of _ "[Fetch model]"]) (auto simp: succeeds_iff)
      next
        case lt: True
        let ?pre = "[Fetch model, Notify model attempt (waitSeconds (backoff attempt)),
                     Sleep (backoff attempt)]"
        have rec: "callAPI_attempts JP fetch model (Suc attempt) (Suc n) (evs @ ?pre) errMsg
                     = (ex, n', evs')"
          using "1.prems" le lt Throttled by (simp add: callAPI_attempts.simps)
        obtain k new where k: "n' = Suc n + k" "evs' = (evs @ ?pre) @ new"
          "fetched new = replicate k model" "k \<le> Suc maxRetries - Suc attempt" "0 < k"
          "\<forall>r \<in> set (butlast (answers fetch (Suc n) (replicate k model))). \<not> succeeds JP r"
          "\<forall>d. ex = Return (Success d) \<longrightarrow>
            tryOnce JP (last (answers fetch (Suc n) (replicate k model))) = Done (Success d)"
          "(\<forall>d. ex \<noteq> Return (Success d)) \<longrightarrow>
            (\<forall>r \<in> set (answers fetch (Suc n) (replicate k model)). \<not> succeeds JP r)"
          using "1.IH"(1) [OF le Throttled lt rec] lt by auto
        have ne: "answers fetch (Suc n) (replicate k model) \<noteq> []"
          using k(5) by (cases k) auto
        have ns: "\<not> succeeds JP (fetch n model)"
          using Throttled by (simp add: succeeds_iff)
        show ?thesis
          using k ne ns
          by (intro exI [of _ "Suc k"] exI [of _ "?pre @ new"]) (auto simp: fetched_append)
      qed
    next
      case (Caught msg)
      show ?thesis
      proof (cases "attempt < maxRetries")
        case False
        then have e: "ex = NextModel msg" "n' = Suc n" "evs' = evs @ [Fetch model]"
          using "1.prems" le Caught by (simp_all add: callAPI_attempts.simps)
        show ?thesis
          using e le Caught
          by (intro exI [of _ 1] exI [of _ "[Fetch model]"]) (auto simp: succeeds_iff)
      next
        case lt: True
        let ?pre = "[Fetch model, Sleep (backoff attempt)]"
        have rec: "callAPI_attempts JP fetch model (Suc attempt) (Suc n) (evs @ ?pre) msg
                     = (ex, n', evs')"
          using "1.prems" le lt Caught by (simp add: callAPI_attempts.simps)
        obtain k new where k: "n' = Suc n + k" "evs' = (evs @ ?pre) @ new"
          "fetched new = replicate k model" "k \<le> Suc maxRetries - Suc attempt" "0 < k"
          "\<forall>r \<in> set (butlast (answers fetch (Suc n) (replicate k model))). \<not> succeeds JP r"
          "\<forall>d. ex = Return (Success d) \<longrightarrow>
            tryOnce JP (last (answers fetch (Suc n) (replicate k model))) = Done (Success d)"
          "(\<forall>d. ex \<noteq> Return (Success d)) \<longrightarrow>
            (\<forall>r \<in> set (answers fetch (Suc n) (replicate k model)). \<not> succeeds JP r)"
          using "1.IH"(2) [OF le Caught lt rec] lt by auto
        have ne: "answers fetch (Suc n) (replicate k model) \<noteq> []"
          using k(5) by (cases k) auto
        have ns: "\<not> succeeds JP (fetch n model)"
          using Caught by (simp add: succeeds_iff)
        show ?thesis
          using k ne ns
          by (intro exI [of _ "Suc k"] exI [of _ "?pre @ new"]) (auto simp: fetched_append)
      qed
    qed
  qed
qed

lemma models_trace:
  "callAPI_models JP fetch ms n evs le = (res, n', evs') \<Longrightarrow>
   \<exists>ks new. length ks \<le> length ms \<and> (\<forall>k \<in> set ks. 0 < k \<and> k \<le> maxRetries)
     \<and> (ms \<noteq> [] \<longrightarrow> ks \<noteq> [])
     \<and> evs' = evs @ new \<and> fetched new = concat (map2 replicate ks ms)
     \<and> n' = n + length (fetched new)
     \<and> (\<forall>r \<in> set (butlast (answers fetch n (fetched new))). \<not> succeeds JP r)
     \<and> (\<forall>d. res = Success d \<longrightarrow>
            fetched new \<noteq> []
            \<and> tryOnce JP (last (answers fetch n (fetched new))) = Done (Success d))
     \<and> ((\<forall>d. res \<noteq> Success d) \<longrightarrow>
            (\<forall>r \<in> set (answers fetch n (fetched new)). \<not> succeeds JP r))"
proof (induction ms arbitrary: n evs le res n' evs')
  case Nil
  then show ?case
    by (intro exI [of _ "[]"]) auto
next
  case (Cons m rest)
  obtain ex n1 evs1 where a: "callAPI_attempts JP fetch m 1 n evs le = (ex, n1, evs1)"
    by (cases "callAPI_attempts JP fetch m 1 n evs le") auto
  obtain k new1 where k: "n1 = n + k" "evs1 = evs @ new1" "fetched new1 = replicate k m"
    "k \<le> maxRetries" "0 < k"
    "\<forall>r \<in> set (butlast (answers fetch n (replicate k m))). \<not> succeeds JP r"
    "\<forall>d. ex = Return (Success d) \<longrightarrow>
       tryOnce JP (last (answers fetch n (replicate k m))) = Done (Success d)"
    "(\<forall>d. ex \<noteq> Return (Success d)) \<longrightarrow>
       (\<forall>r \<in> set (answers fetch n (replicate k m)). \<not> succeeds JP r)"
    using attempts_trace [OF a] by (auto simp: maxRetries_def)
  show ?case
  proof (cases ex)
    case (Return r)
    then have e: "res = r" "n' = n1" "evs' = evs1"
      using Cons.prems a by simp_all
    show ?thesis
      using e k Return
      by (intro exI [of _ "[k]"] exI [of _ new1]) (auto simp: length_answers)
  next
    case (NextModel le1)
    then have rec: "callAPI_models JP fetch rest n1 evs1 le1 = (res, n', evs')"
      using Cons.prems a by simp
    obtain ks new2 where r: "length ks \<le> length rest"
      "\<forall>k \<in> set ks. 0 < k \<and> k \<le> maxRetries"
      "evs' = evs1 @ new2" "fetched new2 = concat (map2 replicate ks rest)"
      "n' = n1 + length (fetched new2)"
      "\<forall>r \<in> set (butlast (answers fetch n1 (fetched new2))). \<not> succeeds JP r"
      "\<forall>d. res = Success d \<longrightarrow>
            fetched new2 \<noteq> []
            \<and> tryOnce JP (last (answers fetch n1 (fetched new2))) = Done (Success d)"
      "(\<forall>d. res \<noteq> Success d) \<longrightarrow>
            (\<forall>r \<in> set (answers fetch n1 (fetched new2)). \<not> succeeds JP r)"
      using Cons.IH [OF rec] by blast
    have all1: "\<forall>r \<in> set (answers fetch n (replicate k m)). \<not> succeeds JP r"
      using k(8) NextModel by simp
    have an: "answers fetch n (fetched (new1 @ new2))
                = answers fetch n (replicate k m) @ answers fetch n1 (fetched new2)"
      by (simp add: fetched_append answers_append k)
    have ne: "fetched new2 \<noteq> [] \<Longrightarrow> answers fetch n1 (fetched new2) \<noteq> []"
      using length_answers [of fetch n1 "fetched new2"] by auto
    have nn: "fetched new2 \<noteq> [] \<Longrightarrow> fetched (new1 @ new2) \<noteq> []"
      by (simp add: fetched_append)
    show ?thesis
    proof (intro exI [of _ "k # ks"] exI [of _ "new1 @ new2"] conjI)
      show "length (k # ks) \<le> length (m # rest)" using r(1) by simp
      show "\<forall>k \<in> set (k # ks). 0 < k \<and> k \<le> maxRetries" using r(2) k(4,5) by simp
      show "m # rest \<noteq> [] \<longrightarrow> k # ks \<noteq> []" by simp
      show "evs' = evs @ new1 @ new2" using r(3) k(2) by simp
      show "fetched (new1 @ new2) = concat (map2 replicate (k # ks) (m # rest))"
        using r(4) k(3) by (simp add: fetched_append)
      show "n' = n + length (fetched (new1 @ new2))"
        using r(5) k(1,3) by (simp add: fetched_append)
      show "\<forall>r \<in> set (butlast (answers fetch n (fetched (new1 @ new2)))). \<not> succeeds JP r"
        using all1 r(6) by (auto simp: an butlast_append dest: in_set_butlastD)
      show "\<forall>d. res = Success d \<longrightarrow>
            fetched (new1 @ new2) \<noteq> []
            \<and> tryOnce JP (last (answers fetch n (fetched (new1 @ new2)))) = Done (Success d)"
        using r(7) ne nn by (auto simp: an)
      show "(\<forall>d. res \<noteq> Success d) \<longrightarrow>
            (\<forall>r \<in> set (answers fetch n (fetched (new1 @ new2))). \<not> succeeds JP r)"
        using all1 r(8) by (auto simp: an)
    qed
  qed
qed


lemma asked_nonempty: "ms \<noteq> [] \<Longrightarrow> asked fetch n ms \<noteq> []"
  by (cases ms) auto

lemma gemini_trace:
  "callGemini_models JP fetch pref ms n evs le = (res, n', evs') \<Longrightarrow>
   \<exists>j new. j \<le> length ms \<and> (ms \<noteq> [] \<longrightarrow> 0 < j)
     \<and> evs' = evs @ new \<and> fetched new = take j ms \<and> n' = n + j
     \<and> (\<forall>x \<in> set (butlast (asked fetch n (take j ms))). \<not> returnsB JP pref x)
     \<and> (\<forall>d. res = Success d \<longrightarrow>
            0 < j
            \<and> tryOnce JP (snd (last (asked fetch n (take j ms)))) = Done (Success (fst d)))
     \<and> ((\<forall>d. res \<noteq> Success d) \<longrightarrow>
            (\<forall>x \<in> set (asked fetch n (take j ms)). \<not> returnsB JP pref x))"
proof (induction ms arbitrary: n evs le res n' evs')
  case Nil
  then show ?case
    by (intro exI [of _ 0] exI [of _ "[]"]) auto
next
  case (Cons m rest)
  have step: ?case
    if rec: "callGemini_models JP fetch pref rest (Suc n) (evs @ pre) le1 = (res, n', evs')"
      and pre: "fetched pre = [m]"
      and ns: "\<not> returnsB JP pref (m, fetch n m)"
    for pre le1
  proof -
    obtain j new where j: "j \<le> length rest" "evs' = (evs @ pre) @ new"
      "fetched new = take j rest" "n' = Suc n + j"
      "\<forall>x \<in> set (butlast (asked fetch (Suc n) (take j rest))). \<not> returnsB JP pref x"
      "\<forall>d. res = Success d \<longrightarrow>
         0 < j
         \<and> tryOnce JP (snd (last (asked fetch (Suc n) (take j rest)))) = Done (Success (fst d))"
      "(\<forall>d. res \<noteq> Success d) \<longrightarrow>
         (\<forall>x \<in> set (asked fetch (Suc n) (take j rest)). \<not> returnsB JP pref x)"
      using Cons.IH [OF rec] by blast
    have ne: "0 < j \<Longrightarrow> asked fetch (Suc n) (take j rest) \<noteq> []"
      using j(1) by (intro asked_nonempty) auto
    show ?thesis
      using j ns ne pre
      by (intro exI [of _ "Suc j"] exI [of _ "pre @ new"])
        (auto simp: fetched_append dest: in_set_butlastD)
  qed
  show ?case
  proof (cases "tryOnce JP (fetch n m)")
    case (Done r)
    show ?thesis
    proof (cases r)
      case (Success parsed)
      show ?thesis
      proof (cases "m \<noteq> pref \<and> parsed = JNull")
        case True
        have rec: "callGemini_models JP fetch pref rest (Suc n) (evs @ [Fetch m])
                     (orElse (Some nullPropertyError) ''Network error.'') = (res, n', evs')"
          using Cons.prems Done Success True by simp
        have "\<not> returnsB JP pref (m, fetch n m)"
          using Done Success True by (simp add: returnsB_def)
        then show ?thesis
          using step [OF rec] by simp
      next
        case False
        then have e: "res = Success (parsed,
                               if m \<noteq> pref \<and> holdsProperties parsed then Some m else None)"
          "n' = Suc n" "evs' = evs @ [Fetch m]"
          using Cons.prems Done Success by (auto split: if_splits)
        show ?thesis
          using e Done Success
          by (intro exI [of _ 1] exI [of _ "[Fetch m]"]) auto
      qed
    next
      case (Failure errMsg)
      then have e: "res = Failure errMsg" "n' = Suc n" "evs' = evs @ [Fetch m]"
        using Cons.prems Done by simp_all
      show ?thesis
        using e Done Failure
        by (intro exI [of _ 1] exI [of _ "[Fetch m]"]) (auto simp: returnsB_def)
    qed
  next
    case (Throttled errMsg)
    have rec: "callGemini_models JP fetch pref rest (Suc n)
                 (evs @ [Fetch m, Notify m 1 0]) errMsg = (res, n', evs')"
      using Cons.prems Throttled by simp
    have "\<not> returnsB JP pref (m, fetch n m)"
      using Throttled by (simp add: returnsB_def)
    then show ?thesis
      using step [OF rec] by simp
  next
    case (Caught msg)
    have rec: "callGemini_models JP fetch pref rest (Suc n) (evs @ [Fetch m]) msg
                 = (res, n', evs')"
      using Cons.prems Caught by simp
    have "\<not> returnsB JP pref (m, fetch n m)"
      using Caught by (simp add: returnsB_def)
    then show ?thesis
      using step [OF rec] by simp
  qed
qed

lemmas invoker_defs =
  callAPI_def callGemini_def modelsToTry_def callAPI_attempts.simps tryOnce_def
  errorMessage_def orElse_def isRateLimitError_def maxRetries_def baseBackoff_def
  backoff_def waitSeconds_def parseJSON_def holdsProperties_def

text \<open>
  What holds of the order of the requests. Under policy A the requests of an invocation go
  to the models in the order of the list, between one and three requests in a row to each
  model of some initial part of it; no request but the last received an ok response with
  text that parses; a returned success carries the parsed text of the last response; and
  when some request received such a response, the invocation returns a success.
\<close>

lemma callAPI_order:
  assumes "callAPI JP fetch apiKey models = (res, n, evs)"
  shows "(\<exists>ks. length ks \<le> length models \<and> (\<forall>k \<in> set ks. 0 < k \<and> k \<le> maxRetries)
            \<and> (apiKey \<noteq> [] \<and> models \<noteq> [] \<longrightarrow> ks \<noteq> [])
            \<and> fetched evs = concat (map2 replicate ks models))
       \<and> n = length (fetched evs)
       \<and> (\<forall>r \<in> set (butlast (answers fetch 0 (fetched evs))). \<not> succeeds JP r)
       \<and> (\<forall>d. res = Success d \<longrightarrow>
              fetched evs \<noteq> []
              \<and> tryOnce JP (last (answers fetch 0 (fetched evs))) = Done (Success d))
       \<and> ((\<exists>r \<in> set (answers fetch 0 (fetched evs)). succeeds JP r)
              \<longrightarrow> (\<exists>d. res = Success d))"
proof (cases "apiKey = []")
  case True
  then have "res = Failure ''API key not configured.''" "n = 0" "evs = []"
    using assms by (simp_all add: callAPI_def)
  then show ?thesis
    using True by (auto intro: exI [of _ "[]"])
next
  case False
  then have "callAPI_models JP fetch models 0 [] [] = (res, n, evs)"
    using assms by (simp add: callAPI_def)
  from models_trace [OF this] False show ?thesis
    by (simp only: append_Nil add_0) blast
qed

text \<open>
  Under policy B the requests go to the models in the order of the list, one each; no
  request but the last made the invocation return; and a returned success carries the
  parsed text of the last response.
\<close>

lemma callGemini_order:
  assumes "callGemini JP fetch apiKey preferred working = (res, n, evs)"
  shows "(\<exists>j. j \<le> length (modelsToTry preferred working) \<and> (apiKey \<noteq> [] \<longrightarrow> 0 < j)
              \<and> fetched evs = take j (modelsToTry preferred working))
       \<and> n = length (fetched evs)
       \<and> (\<forall>x \<in> set (butlast (asked fetch 0 (fetched evs))). \<not> returnsB JP preferred x)
       \<and> (\<forall>d. res = Success d \<longrightarrow>
              fetched evs \<noteq> []
              \<and> tryOnce JP (snd (last (asked fetch 0 (fetched evs)))) = Done (Success (fst d)))"
proof (cases "apiKey = []")
  case True
  then have "res = Failure ''API key not configured.''" "n = 0" "evs = []"
    using assms by (simp_all add: callGemini_def)
  then show ?thesis
    using True by (auto intro: exI [of _ 0])
next
  case False
  then have "callGemini_models JP fetch preferred (modelsToTry preferred working) 0 [] []
               = (res, n, evs)"
    using assms by (simp add: callGemini_def)
  from gemini_trace [OF this] obtain j
    where j: "j \<le> length (modelsToTry preferred working)" "0 < j"
      "fetched evs = take j (modelsToTry preferred working)" "n = j"
      "\<forall>x \<in> set (butlast (asked fetch 0 (take j (modelsToTry preferred working)))).
         \<not> returnsB JP preferred x"
      "\<forall>d. res = Success d \<longrightarrow>
         tryOnce JP (snd (last (asked fetch 0 (take j (modelsToTry preferred working)))))
           = Done (Success (fst d))"
    by (auto simp: modelsToTry_def)
  have ne: "fetched evs \<noteq> []"
    using j(1,2,3) by (auto simp: modelsToTry_def)
  have eq: "take j (modelsToTry preferred working) = fetched evs"
    using j(3) by simp
  have len: "n = length (fetched evs)"
    using j(1,3,4) by simp
  note j5 = j(5) [unfolded eq] and j6 = j(6) [unfolded eq]
  have ex: "\<exists>j. j \<le> length (modelsToTry preferred working) \<and> (apiKey \<noteq> [] \<longrightarrow> 0 < j)
            \<and> fetched evs = take j (modelsToTry preferred working)"
    using j(1,2,3) by blast
  have last: "\<forall>d. res = Success d \<longrightarrow>
            fetched evs \<noteq> []
            \<and> tryOnce JP (snd (last (asked fetch 0 (fetched evs)))) = Done (Success (fst d))"
    using j6 ne by blast
  from ex len j5 last show ?thesis
    by (intro conjI)
qed

lemma callAPI_order_example:
  "fst (callAPI sampleParse busyThenOk ''key'' [''m1'', ''m2'', ''m3''])
     = Success (JObj [(''a'', JNum 1)])
   \<and> fetched (snd (snd (callAPI sampleParse busyThenOk ''key'' [''m1'', ''m2'', ''m3''])))
       = [''m1'', ''m1'', ''m1'', ''m2'']
   \<and> fetched (snd (snd (callGemini sampleParse busyThenOk ''key'' ''m1'' [''m1'', ''m2'', ''m3''])))
       = [''m1'', ''m2'']"
  by (simp add: invoker_defs busyThenOk_def normalize_bare_example sampleParse_def)

lemma normalize_null: "normalize ''null'' = ''null''"
  by (simp add: normalize_def stripLeadingFence_def stripTrailingFence_def trim_def
      startsWith_def endsWith_def fence_def isWhiteSpace_def)

text \<open>
  C1. The invoker is to return the first response that parses and to call no model after
  it. Here, under policy B with the preferred model \<^verbatim>\<open>m1\<close>, the model \<^verbatim>\<open>m1\<close> is throttled
  and \<^verbatim>\<open>m2\<close> answers ok with the text \<^verbatim>\<open>null\<close>, which parses. The invoker does not return it: it
  goes on to request \<^verbatim>\<open>m3\<close> and returns the response of \<^verbatim>\<open>m3\<close>. Policy A on the same network
  returns the parsed \<^verbatim>\<open>null\<close> of \<^verbatim>\<open>m2\<close> and never requests \<^verbatim>\<open>m3\<close>.
\<close>

theorem callGemini_goes_on_after_parsed_null:
  "succeeds sampleParse (nullFromSecond 1 ''m2'')
   \<and> callGemini sampleParse nullFromSecond ''key'' ''m1'' [''m1'', ''m2'', ''m3'']
       = (Success (JObj [(''a'', JNum 1)], Some ''m3''), 3,
          [Fetch ''m1'', Notify ''m1'' 1 0, Fetch ''m2'', Fetch ''m3''])
   \<and> callAPI sampleParse nullFromSecond ''key'' [''m1'', ''m2'', ''m3'']
       = (Success JNull, 4,
          [Fetch ''m1'', Notify ''m1'' 1 2, Sleep 2000, Fetch ''m1'', Notify ''m1'' 2 4,
           Sleep 4000, Fetch ''m1'', Fetch ''m2''])"
  by (simp add: invoker_defs succeeds_def nullFromSecond_def normalize_bare_example
      normalize_null sampleParse_def)

section \<open>Throttled requests\<close>

lemma backoff_values:
  "backoff 1 = 2000" "backoff 2 = 4000" "waitSeconds 2000 = 2" "waitSeconds 4000 = 4"
  by (simp_all add: backoff_def baseBackoff_def waitSeconds_def)

lemma attempts_throttled:
  "tryOnce JP (fetch n m) = Throttled e \<Longrightarrow> a \<le> maxRetries \<Longrightarrow>
   callAPI_attempts JP fetch m a n evs le
     = (if a < maxRetries
        then callAPI_attempts JP fetch m (Suc a) (Suc n)
               (evs @ [Fetch m, Notify m a (waitSeconds (backoff a)), Sleep (backoff a)]) e
        else (NextModel e, Suc n, evs @ [Fetch m]))"
  by (subst callAPI_attempts.simps) simp

lemma attempts_caught:
  "tryOnce JP (fetch n m) = Caught e \<Longrightarrow> a \<le> maxRetries \<Longrightarrow>
   callAPI_attempts JP fetch m a n evs le
     = (if a < maxRetries
        then callAPI_attempts JP fetch m (Suc a) (Suc n)
               (evs @ [Fetch m, Sleep (backoff a)]) e
        else (NextModel e, Suc n, evs @ [Fetch m]))"
  by (subst callAPI_attempts.simps) simp

lemma attempts_throttled_step:
  assumes "tryOnce JP (fetch n m) = Throttled e"
  shows "callAPI_attempts JP fetch m 1 n evs le
           = callAPI_attempts JP fetch m 2 (Suc n)
               (evs @ [Fetch m, Notify m 1 2, Sleep 2000]) e"
    and "callAPI_attempts JP fetch m 2 n evs le
           = callAPI_attempts JP fetch m 3 (Suc n)
               (evs @ [Fetch m, Notify m 2 4, Sleep 4000]) e"
    and "callAPI_attempts JP fetch m 3 n evs le = (NextModel e, Suc n, evs @ [Fetch m])"
proof -
  have "(1::nat) \<le> maxRetries" "(1::nat) < maxRetries" "Suc 1 = 2"
    by (simp_all add: maxRetries_def)
  then show "callAPI_attempts JP fetch m 1 n evs le
           = callAPI_attempts JP fetch m 2 (Suc n)
               (evs @ [Fetch m, Notify m 1 2, Sleep 2000]) e"
    using attempts_throttled [where fetch = fetch and n = n and m = m and a = 1 and evs = evs
            and le = le, OF assms] by (simp only: backoff_values if_True)
  have "(2::nat) \<le> maxRetries" "(2::nat) < maxRetries" "Suc 2 = 3"
    by (simp_all add: maxRetries_def)
  then show "callAPI_attempts JP fetch m 2 n evs le
           = callAPI_attempts JP fetch m 3 (Suc n)
               (evs @ [Fetch m, Notify m 2 4, Sleep 4000]) e"
    using attempts_throttled [where fetch = fetch and n = n and m = m and a = 2 and evs = evs
            and le = le, OF assms] by (simp only: backoff_values if_True)
  have "(3::nat) \<le> maxRetries" "\<not> (3::nat) < maxRetries"
    by (simp_all add: maxRetries_def)
  then show "callAPI_attempts JP fetch m 3 n evs le = (NextModel e, Suc n, evs @ [Fetch m])"
    using attempts_throttled [where fetch = fetch and n = n and m = m and a = 3 and evs = evs
            and le = le, OF assms] by (simp only: if_False)
qed

lemma throttled_tryOnce:
  "isRateLimitError status (errorMessage status msg)
     \<Longrightarrow> tryOnce JP (Status status msg) = Throttled (errorMessage status msg)"
  by (simp add: tryOnce_def Let_def)

lemma attempts_all_throttled:
  assumes "\<forall>n m. \<exists>status msg. fetch n m = Status status msg
             \<and> isRateLimitError status (errorMessage status msg)"
  shows "\<exists>e. callAPI_attempts JP fetch m 1 n evs le
           = (NextModel e, n + 3, evs @ retryTrace m)"
proof -
  have thr: "\<exists>e. tryOnce JP (fetch k m) = Throttled e" for k
    using assms throttled_tryOnce by metis
  obtain e1 e2 e3 where e: "tryOnce JP (fetch n m) = Throttled e1"
    "tryOnce JP (fetch (Suc n) m) = Throttled e2"
    "tryOnce JP (fetch (Suc (Suc n)) m) = Throttled e3"
    using thr by blast
  show ?thesis
    using attempts_throttled_step(1) [where fetch = fetch and n = n and m = m, OF e(1)]
      attempts_throttled_step(2) [where fetch = fetch and n = "Suc n" and m = m, OF e(2)]
      attempts_throttled_step(3) [where fetch = fetch and n = "Suc (Suc n)" and m = m, OF e(3)]
    by (simp add: retryTrace_def)
qed

lemma models_all_throttled:
  assumes "\<forall>n m. \<exists>status msg. fetch n m = Status status msg
             \<and> isRateLimitError status (errorMessage status msg)"
  shows "\<exists>e. callAPI_models JP fetch ms n evs le
           = (Failure (exhaustedA e), n + 3 * length ms, evs @ concat (map retryTrace ms))"
proof (induction ms arbitrary: n evs le)
  case Nil
  show ?case by auto
next
  case (Cons m rest)
  obtain e where e: "callAPI_attempts JP fetch m 1 n evs le
                       = (NextModel e, n + 3, evs @ retryTrace m)"
    using attempts_all_throttled [OF assms] by blast
  obtain e' where "callAPI_models JP fetch rest (n + 3) (evs @ retryTrace m) e
      = (Failure (exhaustedA e'), n + 3 + 3 * length rest,
         (evs @ retryTrace m) @ concat (map retryTrace rest))"
    using Cons.IH by blast
  then show ?case
    using e by auto
qed

lemma gemini_all_throttled:
  assumes "\<forall>n m. \<exists>status msg. fetch n m = Status status msg
             \<and> isRateLimitError status (errorMessage status msg)"
  shows "\<exists>e. callGemini_models JP fetch pref ms n evs le
           = (Failure (exhaustedB e), n + length ms,
              evs @ concat (map (\<lambda>m. [Fetch m, Notify m 1 0]) ms))"
proof (induction ms arbitrary: n evs le)
  case Nil
  show ?case by auto
next
  case (Cons m rest)
  obtain e where e: "tryOnce JP (fetch n m) = Throttled e"
    using assms throttled_tryOnce by metis
  obtain e' where "callGemini_models JP fetch pref rest (Suc n)
        (evs @ [Fetch m, Notify m 1 0]) e
      = (Failure (exhaustedB e'), Suc n + length rest,
         (evs @ [Fetch m, Notify m 1 0]) @ concat (map (\<lambda>m. [Fetch m, Notify m 1 0]) rest))"
    using Cons.IH by blast
  then show ?case
    using e by auto
qed

lemma sleeps_append: "sleeps (xs @ ys) = sleeps xs @ sleeps ys"
  by (induction xs rule: sleeps.induct) auto

lemma sleeps_retry: "sleeps (concat (map retryTrace ms)) = concat (map (\<lambda>m. [2000, 4000]) ms)"
  by (induction ms) (auto simp: retryTrace_def sleeps_append)

lemma sleeps_skip: "sleeps (concat (map (\<lambda>m. [Fetch m, Notify m 1 0]) ms)) = []"
  by (induction ms) auto

text \<open>
  C6. A response with status 429, or whose error message contains \<^verbatim>\<open>quota\<close>, \<^verbatim>\<open>rate\<close> or
  \<^verbatim>\<open>resource_exhausted\<close> in any letter case, is a throttle signal. Under policy A a
  throttled attempt 1 is followed by a wait of 2000 ms and attempt 2 on the same model, a
  throttled attempt 2 by a wait of 4000 ms and attempt 3, and a throttled attempt 3 by
  the next model with no wait. Under policy B a throttled request is followed by the next
  model at once. When every request is throttled, policy A makes three requests per model
  with the waits 2000 and 4000 between them, policy B one request per model and no
  wait, and both return the failure that names the last error.
\<close>

theorem throttle_policies:
  "(\<forall>msg. isRateLimitError 429 msg)
   \<and> (\<forall>status msg.
         includes_str (toLowerCase msg) ''quota'' \<or> includes_str (toLowerCase msg) ''rate''
         \<or> includes_str (toLowerCase msg) ''resource_exhausted''
         \<longrightarrow> isRateLimitError status msg)
   \<and> (\<forall>status msg. isRateLimitError status (errorMessage status msg)
         \<longrightarrow> tryOnce JP (Status status msg) = Throttled (errorMessage status msg))
   \<and> (\<forall>n m e evs le. tryOnce JP (fetch n m) = Throttled e \<longrightarrow>
         callAPI_attempts JP fetch m 1 n evs le
           = callAPI_attempts JP fetch m 2 (Suc n)
               (evs @ [Fetch m, Notify m 1 2, Sleep 2000]) e
         \<and> callAPI_attempts JP fetch m 2 n evs le
             = callAPI_attempts JP fetch m 3 (Suc n)
                 (evs @ [Fetch m, Notify m 2 4, Sleep 4000]) e
         \<and> callAPI_attempts JP fetch m 3 n evs le = (NextModel e, Suc n, evs @ [Fetch m])
         \<and> callGemini_models JP fetch pref (m # rest) n evs le
             = callGemini_models JP fetch pref rest (Suc n) (evs @ [Fetch m, Notify m 1 0]) e)
   \<and> ((\<forall>n m. \<exists>status msg. fetch n m = Status status msg
                \<and> isRateLimitError status (errorMessage status msg)) \<longrightarrow>
         (\<exists>e. callAPI_models JP fetch ms k evs0 le0
                = (Failure (exhaustedA e), k + 3 * length ms,
                   evs0 @ concat (map retryTrace ms)))
         \<and> (\<exists>e. callGemini_models JP fetch pref ms k evs0 le0
                = (Failure (exhaustedB e), k + length ms,
                   evs0 @ concat (map (\<lambda>m. [Fetch m, Notify m 1 0]) ms)))
         \<and> sleeps (concat (map retryTrace ms)) = concat (map (\<lambda>m. [2000, 4000]) ms)
         \<and> sleeps (concat (map (\<lambda>m. [Fetch m, Notify m 1 0]) ms)) = [])"
proof -
  have a: "\<forall>msg. isRateLimitError 429 msg"
    by (simp add: isRateLimitError_def)
  have b: "\<forall>status msg.
         includes_str (toLowerCase msg) ''quota'' \<or> includes_str (toLowerCase msg) ''rate''
         \<or> includes_str (toLowerCase msg) ''resource_exhausted''
         \<longrightarrow> isRateLimitError status msg"
    by (simp add: isRateLimitError_def Let_def)
  have c: "\<forall>status msg. isRateLimitError status (errorMessage status msg)
         \<longrightarrow> tryOnce JP (Status status msg) = Throttled (errorMessage status msg)"
    by (simp add: throttled_tryOnce)
  have d: "\<forall>n m e evs le. tryOnce JP (fetch n m) = Throttled e \<longrightarrow>
         callAPI_attempts JP fetch m 1 n evs le
           = callAPI_attempts JP fetch m 2 (Suc n)
               (evs @ [Fetch m, Notify m 1 2, Sleep 2000]) e
         \<and> callAPI_attempts JP fetch m 2 n evs le
             = callAPI_attempts JP fetch m 3 (Suc n)
                 (evs @ [Fetch m, Notify m 2 4, Sleep 4000]) e
         \<and> callAPI_attempts JP fetch m 3 n evs le = (NextModel e, Suc n, evs @ [Fetch m])
         \<and> callGemini_models JP fetch pref (m # rest) n evs le
             = callGemini_models JP fetch pref rest (Suc n) (evs @ [Fetch m, Notify m 1 0]) e"
  proof (intro allI impI)
    fix n m e evs le
    assume t: "tryOnce JP (fetch n m) = Throttled e"
    note s = attempts_throttled_step [where fetch = fetch and n = n and m = m, OF t]
    have g: "callGemini_models JP fetch pref (m # rest) n evs le
             = callGemini_models JP fetch pref rest (Suc n) (evs @ [Fetch m, Notify m 1 0]) e"
      using t by simp
    show "callAPI_attempts JP fetch m 1 n evs le
           = callAPI_attempts JP fetch m 2 (Suc n)
               (evs @ [Fetch m, Notify m 1 2, Sleep 2000]) e
         \<and> callAPI_attempts JP fetch m 2 n evs le
             = callAPI_attempts JP fetch m 3 (Suc n)
                 (evs @ [Fetch m, Notify m 2 4, Sleep 4000]) e
         \<and> callAPI_attempts JP fetch m 3 n evs le = (NextModel e, Suc n, evs @ [Fetch m])
         \<and> callGemini_models JP fetch pref (m # rest) n evs le
             = callGemini_models JP fetch pref rest (Suc n) (evs @ [Fetch m, Notify m 1 0]) e"
      using s(1) [of evs le] s(2) [of evs le] s(3) [of evs le] g by (intro conjI)
  qed
  have e: "(\<forall>n m. \<exists>status msg. fetch n m = Status status msg
                \<and> isRateLimitError status (errorMessage status msg)) \<longrightarrow>
         (\<exists>e. callAPI_models JP fetch ms k evs0 le0
                = (Failure (exhaustedA e), k + 3 * length ms,
                   evs0 @ concat (map retryTrace ms)))
         \<and> (\<exists>e. callGemini_models JP fetch pref ms k evs0 le0
                = (Failure (exhaustedB e), k + length ms,
                   evs0 @ concat (map (\<lambda>m. [Fetch m, Notify m 1 0]) ms)))
         \<and> sleeps (concat (map retryTrace ms)) = concat (map (\<lambda>m. [2000, 4000]) ms)
         \<and> sleeps (concat (map (\<lambda>m. [Fetch m, Notify m 1 0]) ms)) = []"
    using models_all_throttled [of fetch JP ms k evs0 le0]
      gemini_all_throttled [of fetch JP pref ms k evs0 le0] sleeps_retry sleeps_skip
    by (intro impI conjI)
  from a b c d e show ?thesis
    by (intro conjI)
qed

theorem throttle_policies_witness:
  "(\<forall>n m. \<exists>status msg. always429 n m = Status status msg
            \<and> isRateLimitError status (errorMessage status msg))
   \<and> snd (callAPI_models sampleParse always429 [''m1'', ''m2''] 0 [] [])
       = (6, retryTrace ''m1'' @ retryTrace ''m2'')
   \<and> sleeps (retryTrace ''m1'' @ retryTrace ''m2'') = [2000, 4000, 2000, 4000]
   \<and> snd (callGemini_models sampleParse always429 ''m1'' [''m1'', ''m2''] 0 [] [])
       = (2, [Fetch ''m1'', Notify ''m1'' 1 0, Fetch ''m2'', Notify ''m2'' 1 0])
   \<and> isRateLimitError 500 ''Quota exceeded for today''
   \<and> isRateLimitError 503 (errorMessage 503 (Some ''RESOURCE_EXHAUSTED: slow down''))"
proof -
  have h: "\<forall>n m. \<exists>status msg. always429 n m = Status status msg
             \<and> isRateLimitError status (errorMessage status msg)"
    by (simp add: always429_def isRateLimitError_def)
  note T = throttle_policies
             [where fetch = always429 and JP = sampleParse and ms = "[''m1'', ''m2'']"
                and k = 0 and ?evs0.0 = "[]" and ?le0.0 = "[]" and pref = "''m1''"]
  note U = T [THEN conjunct2, THEN conjunct2, THEN conjunct2, THEN conjunct2, THEN mp,
              OF h]
  obtain e1 where e1: "callAPI_models sampleParse always429 [''m1'', ''m2''] 0 [] []
      = (Failure (exhaustedA e1), 0 + 3 * length [''m1'', ''m2''],
         [] @ concat (map retryTrace [''m1'', ''m2'']))"
    using U [THEN conjunct1] by (elim exE)
  obtain e2 where e2: "callGemini_models sampleParse always429 ''m1'' [''m1'', ''m2''] 0 [] []
      = (Failure (exhaustedB e2), 0 + length [''m1'', ''m2''],
         [] @ concat (map (\<lambda>m. [Fetch m, Notify m 1 0]) [''m1'', ''m2'']))"
    using U [THEN conjunct2, THEN conjunct1] by (elim exE)
  have a: "snd (callAPI_models sampleParse always429 [''m1'', ''m2''] 0 [] [])
             = (6, retryTrace ''m1'' @ retryTrace ''m2'')"
    by (simp only: e1 snd_conv) simp
  have b: "snd (callGemini_models sampleParse always429 ''m1'' [''m1'', ''m2''] 0 [] [])
             = (2, [Fetch ''m1'', Notify ''m1'' 1 0, Fetch ''m2'', Notify ''m2'' 1 0])"
    by (simp only: e2 snd_conv) simp
  have c: "sleeps (retryTrace ''m1'' @ retryTrace ''m2'') = [2000, 4000, 2000, 4000]"
    using U [THEN conjunct2, THEN conjunct2, THEN conjunct1] by simp
  have d: "isRateLimitError 500 ''Quota exceeded for today''"
    by (simp add: isRateLimitError_def toLowerCase_def lowerChar_def startsWith_def)
  have e: "isRateLimitError 503 (errorMessage 503 (Some ''RESOURCE_EXHAUSTED: slow down''))"
    by (simp add: errorMessage_def orElse_def isRateLimitError_def toLowerCase_def
        lowerChar_def startsWith_def)
  from h a b c d e show ?thesis
    by (intro conjI)
qed

section \<open>Responses that do not parse\<close>

text \<open>
  C9. On a network that answers every request with an ok response whose text is not JSON,
  the invoker does what it does on a network where every request fails: policy A retries
  each model three times with the waits 2000 and 4000 and policy B goes through the
  models, and both return the failure for exhausted models, the parse error only as its
  last error. The parse failure is not told apart from a failed request.
\<close>

theorem parse_failure_handled_as_network_failure:
  "tryOnce sampleParse (Ok (Some ''not json''))
     = tryOnce sampleParse (Throws ''Unexpected token'')
   \<and> callAPI sampleParse notJson ''key'' [''m1'', ''m2'']
     = (Failure (exhaustedA ''Unexpected token''), 6,
        [Fetch ''m1'', Sleep 2000, Fetch ''m1'', Sleep 4000, Fetch ''m1'',
         Fetch ''m2'', Sleep 2000, Fetch ''m2'', Sleep 4000, Fetch ''m2''])
   \<and> callAPI sampleParse notJson ''key'' [''m1'', ''m2'']
     = callAPI sampleParse offline ''key'' [''m1'', ''m2'']
   \<and> callGemini sampleParse notJson ''key'' ''m1'' [''m1'', ''m2'']
     = (Failure (exhaustedB ''Unexpected token''), 2, [Fetch ''m1'', Fetch ''m2''])
   \<and> callGemini sampleParse notJson ''key'' ''m1'' [''m1'', ''m2'']
     = callGemini sampleParse offline ''key'' ''m1'' [''m1'', ''m2'']"
  by (simp add: invoker_defs notJson_def offline_def normalize_not_json sampleParse_def)

section \<open>Pacing of the scheduler\<close>

lemma foldl_enqueue: "foldl enqueue queue ts = queue @ ts"
  by (induction ts arbitrary: queue) (auto simp: enqueue_def)

lemma runTask_facts:
  assumes "runTask s clock t = (s', started, finished)"
  shows "lastRequestTime s + minRequestGap s \<le> started"
    and "lastRequestTime s' = started"
    and "minRequestGap s' = minRequestGap s"
    and "clock \<le> started"
    and "started \<le> finished"
  using assms by (auto simp: runTask_def Let_def split: if_splits)

lemma runQueue_after:
  "x \<in> set (runQueue s clock ts)
     \<Longrightarrow> lastRequestTime s + minRequestGap s \<le> startOf x \<and> clock \<le> startOf x"
proof (induction ts arbitrary: s clock)
  case Nil
  then show ?case by simp
next
  case (Cons t ts)
  obtain s' started finished where r: "runTask s clock t = (s', started, finished)"
    by (cases "runTask s clock t") auto
  note f = runTask_facts [OF r]
  show ?case
  proof (cases "x = (label t, started, finished)")
    case True
    then show ?thesis
      using f by (simp add: startOf_def)
  next
    case False
    then have "x \<in> set (runQueue s' finished ts)"
      using Cons.prems r by (auto split: if_splits)
    then have "lastRequestTime s' + minRequestGap s' \<le> startOf x \<and> finished \<le> startOf x"
      by (rule Cons.IH)
    then show ?thesis
      using f by linarith
  qed
qed

lemma runQueue_spaced:
  "successively (\<lambda>a b. startOf a + minRequestGap s \<le> startOf b \<and> endOf a \<le> startOf b)
     (runQueue s clock ts)"
proof (induction ts arbitrary: s clock)
  case Nil
  show ?case by simp
next
  case (Cons t ts)
  obtain s' started finished where r: "runTask s clock t = (s', started, finished)"
    by (cases "runTask s clock t") auto
  note f = runTask_facts [OF r]
  let ?rest = "if rejects t then [] else runQueue s' finished ts"
  have rest: "successively
      (\<lambda>a b. startOf a + minRequestGap s \<le> startOf b \<and> endOf a \<le> startOf b) ?rest"
    using Cons.IH [of s' finished] f(3) by simp
  have hd: "?rest \<noteq> [] \<Longrightarrow>
      started + minRequestGap s \<le> startOf (hd ?rest) \<and> finished \<le> startOf (hd ?rest)"
  proof -
    assume ne: "?rest \<noteq> []"
    then have "hd ?rest \<in> set (runQueue s' finished ts)"
      by (auto split: if_splits)
    from runQueue_after [OF this] show ?thesis
      using f(2,3) by simp
  qed
  show ?case
    using r rest hd by (cases ?rest) (auto simp: successively_Cons startOf_def endOf_def)
qed

lemma runQueue_order:
  "\<exists>k \<le> length ts. map fst (runQueue s clock ts) = map label (take k ts)"
proof (induction ts arbitrary: s clock)
  case Nil
  show ?case by simp
next
  case (Cons t ts)
  obtain s' started finished where r: "runTask s clock t = (s', started, finished)"
    by (cases "runTask s clock t") auto
  show ?case
  proof (cases "rejects t")
    case True
    then show ?thesis
      using r by (intro exI [of _ 1]) simp
  next
    case False
    obtain k where "k \<le> length ts"
      "map fst (runQueue s' finished ts) = map label (take k ts)"
      using Cons.IH by blast
    then show ?thesis
      using r False by (intro exI [of _ "Suc k"]) simp
  qed
qed

lemma runQueue_all:
  "\<forall>t \<in> set ts. \<not> rejects t \<Longrightarrow> map fst (runQueue s clock ts) = map label ts"
proof (induction ts arbitrary: s clock)
  case Nil
  show ?case by simp
next
  case (Cons t ts)
  obtain s' started finished where r: "runTask s clock t = (s', started, finished)"
    by (cases "runTask s clock t") auto
  show ?case
    using Cons r by simp
qed

text \<open>
  C2. The tasks given to \<^verbatim>\<open>_enqueue\<close> run in the order in which they were given, one at a
  time: each starts no earlier than the end of the one before it, and at least the minimum
  gap after the start of the one before it, on the scheduler's clock. The first starts at
  least the gap after the last request time the scheduler holds. A task whose promise is
  rejected ends the chain; when no task is rejected, all of them run. The gap is 1000
  ms in the OpenRouter client and 4000 ms in the probing Gemini client.
\<close>

theorem scheduler_spacing:
  "successively (\<lambda>a b. startOf a + minRequestGap s \<le> startOf b \<and> endOf a \<le> startOf b)
     (runQueue s clock (foldl enqueue [] tasks))
   \<and> (\<forall>x \<in> set (runQueue s clock (foldl enqueue [] tasks)).
         lastRequestTime s + minRequestGap s \<le> startOf x)
   \<and> (\<exists>k \<le> length tasks.
         map fst (runQueue s clock (foldl enqueue [] tasks)) = map label (take k tasks))
   \<and> ((\<forall>t \<in> set tasks. \<not> rejects t)
         \<longrightarrow> map fst (runQueue s clock (foldl enqueue [] tasks)) = map label tasks)
   \<and> minRequestGap_A = 1000 \<and> minRequestGap_B = 4000"
proof -
  have q: "foldl enqueue [] tasks = tasks"
    by (simp add: foldl_enqueue)
  have a: "successively
      (\<lambda>a b. startOf a + minRequestGap s \<le> startOf b \<and> endOf a \<le> startOf b)
      (runQueue s clock tasks)"
    by (rule runQueue_spaced)
  have b: "\<forall>x \<in> set (runQueue s clock tasks).
      lastRequestTime s + minRequestGap s \<le> startOf x"
    using runQueue_after [of _ s clock tasks] by blast
  have c: "\<exists>k \<le> length tasks. map fst (runQueue s clock tasks) = map label (take k tasks)"
    by (rule runQueue_order)
  have d: "(\<forall>t \<in> set tasks. \<not> rejects t)
      \<longrightarrow> map fst (runQueue s clock tasks) = map label tasks"
    using runQueue_all [of tasks s clock] by blast
  have e: "minRequestGap_A = 1000 \<and> minRequestGap_B = 4000"
    by (simp add: minRequestGap_A_def minRequestGap_B_def)
  from a b c d e show ?thesis
    unfolding q by (intro conjI) simp_all
qed

theorem scheduler_spacing_witness:
  "map rejects threeTasks = [False, False, False]
   \<and> map fst (runQueue (idleScheduler minRequestGap_A) 5000 (foldl enqueue [] threeTasks))
       = [''a'', ''b'', ''c'']
   \<and> runQueue (idleScheduler minRequestGap_A) 5000 (foldl enqueue [] threeTasks)
       = [(''a'', 5000, 5300), (''b'', 6005, 6055), (''c'', 8055, 8125)]
   \<and> runQueue (idleScheduler minRequestGap_B) 5000 (foldl enqueue [] threeTasks)
       = [(''a'', 5000, 5300), (''b'', 9005, 9055), (''c'', 13005, 13075)]"
proof -
  have h: "\<forall>t \<in> set threeTasks. \<not> rejects t"
    by (simp add: threeTasks_def)
  note T = scheduler_spacing
             [where s = "idleScheduler minRequestGap_A" and clock = 5000
                and tasks = threeTasks]
  have m: "map fst (runQueue (idleScheduler minRequestGap_A) 5000
                      (foldl enqueue [] threeTasks)) = map label threeTasks"
    using T [THEN conjunct2, THEN conjunct2, THEN conjunct2, THEN conjunct1, THEN mp, OF h] .
  have l: "map label threeTasks = [''a'', ''b'', ''c'']"
    by (simp add: threeTasks_def)
  have a: "runQueue (idleScheduler minRequestGap_A) 5000 (foldl enqueue [] threeTasks)
             = [(''a'', 5000, 5300), (''b'', 6005, 6055), (''c'', 8055, 8125)]"
    by (simp add: threeTasks_def idleScheduler_def minRequestGap_A_def enqueue_def
        runTask_def Let_def)
  have b: "runQueue (idleScheduler minRequestGap_B) 5000 (foldl enqueue [] threeTasks)
             = [(''a'', 5000, 5300), (''b'', 9005, 9055), (''c'', 13005, 13075)]"
    by (simp add: threeTasks_def idleScheduler_def minRequestGap_B_def enqueue_def
        runTask_def Let_def)
  have r: "map rejects threeTasks = [False, False, False]"
    by (simp add: threeTasks_def)
  from r m [unfolded l] a b show ?thesis
    by (intro conjI)
qed

end
